theory Spec2Isabelle
  imports Complex_Main "HOL-Library.Word"
begin

section \<open>Strings, bytes and the path helpers of the runtime\<close>

text \<open>
  A JavaScript string is modelled by the list of its code points (natural numbers); the
  strings of the program are decoded text, header values, file names and archive paths.
  Every operation the program applies to them (concatenation, splitting at white space,
  searching for \<open>/\<close>, \<open>.\<close> and ASCII letters, iterating with \<open>for ... of\<close>) works
  code point by code point.  A \<open>Uint8Array\<close> is a list of 8-bit words.
\<close>

type_synonym jsstring = "nat list"
type_synonym bytes = "8 word list"

definition js :: "string \<Rightarrow> jsstring" where
  "js s = map of_char s"

text \<open>The class \<open>\s\<close> of ECMAScript regular expressions: white space and line terminators.\<close>

definition isWhiteSpace :: "nat \<Rightarrow> bool" where
  "isWhiteSpace c \<longleftrightarrow>
     c = 9 \<or> c = 10 \<or> c = 11 \<or> c = 12 \<or> c = 13 \<or> c = 32 \<or> c = 160 \<or> c = 5760 \<or>
     (8192 \<le> c \<and> c \<le> 8202) \<or> c = 8232 \<or> c = 8233 \<or> c = 8239 \<or> c = 8287 \<or>
     c = 12288 \<or> c = 65279"

text \<open>
  \<open>toLowerCase\<close> where the program compares the result with one of the constants
  \<open>.txt .docx .rtf .html .htm .pdf .zip\<close> or with a MIME type of
  \<open>guessExtFromContentType\<close>: the letters \<open>A\<close> to \<open>Z\<close> are lower-cased.  On ASCII
  strings this is the runtime's function.  A character outside ASCII lower-cases to a
  string with a character outside ASCII, except the Kelvin sign, which lower-cases to
  \<open>k\<close>, a letter that is in none of these constants; so a string with such a character
  is lower-cased to none of them by either function.  Where the lower-cased string itself
  is used (the extension that \<open>downloadUrlToTemp\<close> appends to a file name), the model
  takes the runtime's function as a parameter, \<open>unicodeLowerCase\<close> below.  The same
  map on letters is the canonicalisation of the flag \<open>i\<close> of a regular expression whose
  pattern is ASCII.
\<close>

definition lowerChar :: "nat \<Rightarrow> nat" where
  "lowerChar c = (if 65 \<le> c \<and> c \<le> 90 then c + 32 else c)"

definition toLowerCase :: "jsstring \<Rightarrow> jsstring" where
  "toLowerCase s = map lowerChar s"

text \<open>\<open>s.endsWith(suffix)\<close>, and the test of a regular expression \<open>/suffix$/i\<close> for a
  literal suffix (the flag \<open>i\<close> without \<open>u\<close> identifies ASCII letters only with ASCII
  letters).\<close>

definition endsWith :: "jsstring \<Rightarrow> jsstring \<Rightarrow> bool" where
  "endsWith s suffix \<longleftrightarrow>
     length suffix \<le> length s \<and> drop (length s - length suffix) s = suffix"

definition endsWithCI :: "jsstring \<Rightarrow> jsstring \<Rightarrow> bool" where
  "endsWithCI s suffix \<longleftrightarrow> endsWith (toLowerCase s) (toLowerCase suffix)"

text \<open>\<open>s.startsWith(prefix)\<close>.\<close>

definition startsWith :: "jsstring \<Rightarrow> jsstring \<Rightarrow> bool" where
  "startsWith s prefix \<longleftrightarrow> take (length prefix) s = prefix"

text \<open>
  The functions \<open>basename\<close> and \<open>extname\<close> of the runtime's POSIX \<open>path\<close> module.  Both
  ignore trailing slashes and look at the last component of the path.  \<open>extname\<close> is
  the part of that component from its last dot on; it is empty when the component has no
  dot, when its only dot is its first character, and when the component is \<open>..\<close>.
\<close>

definition stripTrailingSlashes :: "jsstring \<Rightarrow> jsstring" where
  "stripTrailingSlashes p = rev (dropWhile (\<lambda>c. c = 47) (rev p))"

definition lastComponent :: "jsstring \<Rightarrow> jsstring" where
  "lastComponent p = rev (takeWhile (\<lambda>c. c \<noteq> 47) (rev (stripTrailingSlashes p)))"

definition basename :: "jsstring \<Rightarrow> jsstring" where
  "basename p = lastComponent p"

text \<open>
  \<open>basename(path, suffix)\<close> scans the path from its last character to its first, as the
  runtime does.  The state is \<open>end\<close>, \<open>matchedSlash\<close>, \<open>extIdx\<close> and
  \<open>firstNonSlashEnd\<close> (\<open>-1\<close> is the unset index); \<open>basenameScan path suffix n\<close> has
  still to read the characters at the indices below \<open>n\<close>, and returns \<open>start\<close>, \<open>end\<close>
  and \<open>firstNonSlashEnd\<close> as they are after the loop.  When the component is left while
  the suffix is still being matched, \<open>end\<close> is unset and the result runs to the end of
  the path, trailing slashes included.
\<close>

fun basenameScan :: "jsstring \<Rightarrow> jsstring \<Rightarrow> nat \<Rightarrow> int \<times> bool \<times> int \<times> int \<Rightarrow> nat \<times> int \<times> int" where
  "basenameScan path suffix 0 (endIdx, matchedSlash, extIdx, firstNonSlashEnd) =
     (0, endIdx, firstNonSlashEnd)"
| "basenameScan path suffix (Suc i) (endIdx, matchedSlash, extIdx, firstNonSlashEnd) =
     (let code = path ! i in
      if code = 47 then
        (if \<not> matchedSlash then (Suc i, endIdx, firstNonSlashEnd)
         else basenameScan path suffix i (endIdx, matchedSlash, extIdx, firstNonSlashEnd))
      else
        (let matchedSlash1 = (if firstNonSlashEnd = -1 then False else matchedSlash);
             first1 = (if firstNonSlashEnd = -1 then int i + 1 else firstNonSlashEnd)
         in if extIdx \<ge> 0 then
              (if code = suffix ! nat extIdx then
                 basenameScan path suffix i
                   ((if extIdx - 1 = -1 then int i else endIdx), matchedSlash1, extIdx - 1, first1)
               else basenameScan path suffix i (first1, matchedSlash1, -1, first1))
            else basenameScan path suffix i (endIdx, matchedSlash1, extIdx, first1)))"

definition basenameExt :: "jsstring \<Rightarrow> jsstring \<Rightarrow> jsstring" where
  "basenameExt p suffix =
     (if suffix \<noteq> [] \<and> length suffix \<le> length p then
        (if suffix = p then []
         else
           (let (start, endIdx, firstNonSlashEnd) =
                  basenameScan p suffix (length p) (-1, True, int (length suffix) - 1, -1);
                endIdx1 = (if int start = endIdx then firstNonSlashEnd
                           else if endIdx = -1 then int (length p)
                           else endIdx)
            in take (nat endIdx1 - start) (drop start p)))
      else basename p)"

definition extname :: "jsstring \<Rightarrow> jsstring" where
  "extname p =
     (let c = lastComponent p;
          after = takeWhile (\<lambda>x. x \<noteq> 46) (rev c)
      in if 46 \<notin> set c then []
         else if length after + 1 = length c then []
         else if c = [46, 46] then []
         else drop (length c - (length after + 1)) c)"

section \<open>The text adapter: word wrap and pagination\<close>

text \<open>
  \<open>font.widthOfTextAtSize(text, size)\<close> of the embedded font belongs to the PDF library;
  the model takes it as a parameter.  The library throws when it is asked to measure or
  draw a string with a character the font cannot encode; the parameter gives the widths of
  the strings it does measure, and \<open>txtToPdf_toPath\<close> below fails at the first string
  of \<open>encodedStrings\<close> that the library refuses.

  Numbers are real numbers.  The widths are the values the font returns and are only
  compared with \<open>maxWidth\<close>; 612, 792, 50, 12 and 512 are the same in double precision.
  The line height \<open>12 * 1.3\<close> and the heights \<open>y\<close> are rounded in double precision, by
  less than a billionth of a point, where the comparison \<open>y < margin + lineHeight\<close> is
  never closer than 5 points to a tie (a page takes 44 lines); the properties proved of
  the pagination use only that equal numbers of lines give equal numbers of pages and
  that placing a line never removes a page.
\<close>

type_synonym font = "jsstring \<Rightarrow> real \<Rightarrow> real"

definition pageSize :: "real \<times> real" where
  "pageSize = (612, 792)"

definition margin :: real where
  "margin = 50"

definition fontSize :: real where
  "fontSize = 12"

definition lineHeight :: real where
  "lineHeight = fontSize * 1.3"

definition maxWidth :: real where
  "maxWidth = fst pageSize - margin * 2"

text \<open>\<open>text.replace(/\r\n/g, "\n")\<close>\<close>

fun replaceCRLF :: "jsstring \<Rightarrow> jsstring" where
  "replaceCRLF [] = []"
| "replaceCRLF [c] = [c]"
| "replaceCRLF (c # d # cs) =
     (if c = 13 \<and> d = 10 then 10 # replaceCRLF cs else c # replaceCRLF (d # cs))"

text \<open>
  \<open>s.split(/\s+/)\<close>: the pieces between the maximal runs of white space, with an empty
  piece before a leading run and after a trailing run; the empty string gives one empty
  piece.  \<open>splitWords cur s\<close> has read \<open>cur\<close> of the current piece; \<open>skipSpaces s\<close> is
  inside a run of white space.
\<close>

fun splitWords :: "jsstring \<Rightarrow> jsstring \<Rightarrow> jsstring list"
  and skipSpaces :: "jsstring \<Rightarrow> jsstring list" where
  "splitWords cur [] = [cur]"
| "splitWords cur (c # cs) =
     (if isWhiteSpace c then cur # skipSpaces cs else splitWords (cur @ [c]) cs)"
| "skipSpaces [] = [[]]"
| "skipSpaces (c # cs) =
     (if isWhiteSpace c then skipSpaces cs else splitWords [c] cs)"

definition splitWhitespace :: "jsstring \<Rightarrow> jsstring list" where
  "splitWhitespace s = splitWords [] s"

text \<open>
  The inner loop \<open>for (const ch of w)\<close>: the state is the list \<open>lines\<close> and the variable
  \<open>chunk\<close>.
\<close>

definition chunkStep :: "font \<Rightarrow> jsstring list \<times> jsstring \<Rightarrow> nat \<Rightarrow> jsstring list \<times> jsstring" where
  "chunkStep font st ch =
     (let (lines, chunk) = st; t2 = chunk @ [ch] in
      if font t2 fontSize \<le> maxWidth then (lines, t2)
      else ((if chunk \<noteq> [] then lines @ [chunk] else lines), [ch]))"

text \<open>
  The body of the outer loop \<open>for (const w of words)\<close>: the state is \<open>lines\<close> and
  \<open>current\<close>; the empty string is the false one.
\<close>

definition wordStep :: "font \<Rightarrow> jsstring list \<times> jsstring \<Rightarrow> jsstring \<Rightarrow> jsstring list \<times> jsstring" where
  "wordStep font st w =
     (let (lines, current) = st;
          trial = (if current \<noteq> [] then current @ [32] @ w else w)
      in if font trial fontSize \<le> maxWidth then (lines, trial)
         else
           (let lines1 = (if current \<noteq> [] then lines @ [current] else lines)
            in if font w fontSize > maxWidth then foldl (chunkStep font) (lines1, []) w
               else (lines1, w)))"

definition wrapWords :: "font \<Rightarrow> jsstring list \<Rightarrow> jsstring list" where
  "wrapWords font words =
     (let (lines, current) = foldl (wordStep font) ([], []) words
      in if current \<noteq> [] then lines @ [current] else lines)"

definition layoutLines :: "font \<Rightarrow> jsstring \<Rightarrow> jsstring list" where
  "layoutLines font text = wrapWords font (splitWhitespace (replaceCRLF text))"

text \<open>
  The strings the adapter hands to the font, in the order in which it does: in the wrap
  loop the candidate line \<open>trial\<close>, then the word when the candidate is too wide, then
  the candidates \<open>t2\<close> of the inner loop when the word is too wide; after the loop the
  lines as they are drawn, and the footer, which is measured and drawn.
\<close>

fun chunkMeasured :: "font \<Rightarrow> jsstring list \<times> jsstring \<Rightarrow> jsstring \<Rightarrow> jsstring list" where
  "chunkMeasured font st [] = []"
| "chunkMeasured font st (ch # rest) =
     (snd st @ [ch]) # chunkMeasured font (chunkStep font st ch) rest"

definition wordMeasured :: "font \<Rightarrow> jsstring list \<times> jsstring \<Rightarrow> jsstring \<Rightarrow> jsstring list" where
  "wordMeasured font st w =
     (let (lines, current) = st;
          trial = (if current \<noteq> [] then current @ [32] @ w else w)
      in trial #
         (if font trial fontSize \<le> maxWidth then []
          else
            (let lines1 = (if current \<noteq> [] then lines @ [current] else lines)
             in w # (if font w fontSize > maxWidth then chunkMeasured font (lines1, []) w
                     else []))))"

fun wrapMeasured :: "font \<Rightarrow> jsstring list \<times> jsstring \<Rightarrow> jsstring list \<Rightarrow> jsstring list" where
  "wrapMeasured font st [] = []"
| "wrapMeasured font st (w # ws) =
     wordMeasured font st w @ wrapMeasured font (wordStep font st w) ws"

definition encodedStrings :: "font \<Rightarrow> jsstring \<Rightarrow> jsstring \<Rightarrow> jsstring list" where
  "encodedStrings font text filename =
     wrapMeasured font ([], []) (splitWhitespace (replaceCRLF text)) @
     layoutLines font text @ [basename filename]"

text \<open>
  The document under construction: each page is the list of the texts drawn on it.  The
  second loop keeps the pages already left, the page being filled and the height \<open>y\<close>.
\<close>

record drawn =
  dText :: jsstring
  dX :: real
  dY :: real
  dSize :: real
  dColor :: "real \<times> real \<times> real"

type_synonym page = "drawn list"

definition placeLine :: "page list \<times> page \<times> real \<Rightarrow> jsstring \<Rightarrow> page list \<times> page \<times> real" where
  "placeLine st line =
     (let (earlier, page, y) = st;
          (earlier1, page1, y1) =
             (if y < margin + lineHeight then (earlier @ [page], [], snd pageSize - margin)
              else (earlier, page, y))
      in (earlier1,
          page1 @ [\<lparr>dText = line, dX = margin, dY = y1, dSize = fontSize, dColor = (0, 0, 0)\<rparr>],
          y1 - lineHeight))"

definition paginate :: "jsstring list \<Rightarrow> page list" where
  "paginate lines =
     (let (earlier, page, y) = foldl placeLine ([], [], snd pageSize - margin) lines
      in earlier @ [page])"

definition drawFooter :: "font \<Rightarrow> jsstring \<Rightarrow> page list \<Rightarrow> page list" where
  "drawFooter font filename pages =
     (let footer = basename filename;
          footerWidth = font footer 9
      in case pages of
           [] \<Rightarrow> []
         | firstPage # rest \<Rightarrow>
             (firstPage @ [\<lparr>dText = footer, dX = (fst pageSize - footerWidth) / 2, dY = 20,
                            dSize = 9, dColor = (0.3, 0.3, 0.3)\<rparr>]) # rest)"

text \<open>The document that \<open>txtToPdf_toPath\<close> hands to \<open>pdf.save()\<close>, from the decoded text.\<close>

definition txtDocument :: "font \<Rightarrow> jsstring \<Rightarrow> jsstring \<Rightarrow> page list" where
  "txtDocument font text filename = drawFooter font filename (paginate (layoutLines font text))"

text \<open>The texts drawn at the body size, that is the laid-out lines as they are on the pages.\<close>

definition bodyLines :: "page list \<Rightarrow> jsstring list" where
  "bodyLines pages = map dText (filter (\<lambda>d. dSize d = fontSize) (concat pages))"

text \<open>A font for examples: every character is half the font size wide.\<close>

definition halfEm :: font where
  "halfEm s sz = real (length s) * sz / 2"

text \<open>
  Measures used in the proofs about the layout: the number of lines the wrap loop has
  produced so far, counting a non-empty \<open>current\<close>; the candidate line and the list
  after the push, as \<open>wordStep\<close> forms them; and of the pagination state the number
  of pages left and the height, which are all that a later step depends on.
\<close>

definition lineCount :: "jsstring list \<times> jsstring \<Rightarrow> nat" where
  "lineCount st = length (fst st) + (if snd st \<noteq> [] then 1 else 0)"

definition trialOf :: "jsstring \<Rightarrow> jsstring \<Rightarrow> jsstring" where
  "trialOf current w = (if current \<noteq> [] then current @ [32] @ w else w)"

definition pushCurrent :: "jsstring list \<Rightarrow> jsstring \<Rightarrow> jsstring list" where
  "pushCurrent lines current = (if current \<noteq> [] then lines @ [current] else lines)"

definition pageState :: "page list \<times> page \<times> real \<Rightarrow> nat \<times> real" where
  "pageState st = (length (fst st), snd (snd st))"

section \<open>Errors, responses, requests and the world\<close>

text \<open>
  A thrown \<open>HTTPException\<close> carries its status and message; every other exception is an
  \<open>Error\<close> with its message.  A handler either throws or returns a response;
  \<open>app.onError\<close> turns what is thrown into the JSON envelope.
\<close>

datatype error = HTTPException nat jsstring | Error jsstring

text \<open>\<open>Stream body filename mime\<close> is the response of \<open>streamFile\<close> (status 200, the
  file's content as body; \<open>None\<close> when there is no such file); \<open>Json status message\<close> is
  the envelope \<open>{ ok: false, error: message }\<close> sent with that status.\<close>

datatype response = Stream "bytes option" jsstring jsstring | Json nat jsstring

definition onError :: "error \<Rightarrow> response" where
  "onError err =
     (case err of
        HTTPException status message \<Rightarrow> Json status message
      | Error message \<Rightarrow> Json 500 (if message \<noteq> [] then message else js ''Internal error''))"

record upload =
  upName :: jsstring
  upContent :: bytes

datatype formvalue = FString jsstring | FFile upload

text \<open>
  What a handler reads of a request: the \<open>content-type\<close> header, the result of
  \<open>c.req.formData()\<close> (the fields in order, or the message of its rejection) and, for a
  JSON body, the property \<open>url\<close> when the body parses to an object that has it as a string.
\<close>

record request =
  reqContentType :: "jsstring option"
  reqFormData :: "jsstring + (jsstring \<times> formvalue) list"
  reqJsonUrl :: "jsstring option"

text \<open>The result of a spawned process: exit code, captured output, and the files it leaves.\<close>

record procResult =
  exitCode :: nat
  stdoutText :: jsstring
  stderrText :: jsstring
  filesAfter :: "jsstring \<rightharpoonup> bytes"

text \<open>The response of \<open>fetch\<close>: \<open>res.ok\<close>, \<open>res.status\<close>, the two headers read, and the
  chunks the body's reader yields (\<open>None\<close> when the response has no body).\<close>

record fetched =
  fOk :: bool
  fStatus :: nat
  fContentType :: "jsstring option"
  fContentDisposition :: "jsstring option"
  fBody :: "bytes list option"

text \<open>
  The collaborators outside the repository, as parameters: the embedded font, the
  encoding of a string for that font (\<open>None\<close> when the font encodes the string, the
  message of the error the PDF library throws when it does not) and \<open>pdf.save()\<close> of
  the PDF library, the UTF-8 decoder and encoder,
  \<open>String.prototype.toLowerCase\<close> of the runtime, \<open>Bun.spawn\<close> (given
  the argument vector and the files present; \<open>Inl\<close> when spawning throws), the two
  environment variables, \<open>mammoth.convertToHtml\<close>, the archive library, \<open>fetch\<close>,
  \<open>new URL(s).pathname\<close> and \<open>decodeURIComponent\<close> (\<open>None\<close> when they throw),
  \<open>join(TEMP_DIR, name)\<close>, and the text \<open>Date.now()-random\<close> drawn for the n-th
  temporary name.
\<close>

record env =
  embedFont :: font
  encodeFailure :: "jsstring \<Rightarrow> jsstring option"
  pdfSave :: "page list \<Rightarrow> bytes"
  textDecode :: "bytes \<Rightarrow> jsstring"
  textEncode :: "jsstring \<Rightarrow> bytes"
  unicodeLowerCase :: "jsstring \<Rightarrow> jsstring"
  spawn :: "jsstring list \<Rightarrow> (jsstring \<rightharpoonup> bytes) \<Rightarrow> jsstring + procResult"
  envWKHTMLTOPDF_PATH :: "jsstring option"
  envUNRTF_PATH :: "jsstring option"
  mammothConvertToHtml :: "bytes \<Rightarrow> jsstring + jsstring"
  unzipSync :: "bytes \<Rightarrow> jsstring + (jsstring \<times> bytes) list"
  zipSync :: "(jsstring \<times> bytes) list \<Rightarrow> bytes"
  fetch :: "jsstring \<Rightarrow> jsstring + fetched"
  urlPathname :: "jsstring \<Rightarrow> jsstring option"
  decodeURIComponent :: "jsstring \<Rightarrow> jsstring option"
  joinTempDir :: "jsstring \<Rightarrow> jsstring"
  stamp :: "nat \<Rightarrow> jsstring"

text \<open>The invocations of converters, logged in the order they happen.\<close>

datatype call = CallTxtToPdf bytes jsstring | CallMammoth bytes | CallSpawn "jsstring list"

text \<open>
  The state a request runs in: the files of the scratch directory, the log of converter
  invocations, and the number of temporary names drawn so far.
\<close>

record world =
  files :: "jsstring \<rightharpoonup> bytes"
  calls :: "call list"
  ticks :: nat

type_synonym 'a action = "world \<Rightarrow> (error + 'a) \<times> world"

definition ret :: "'a \<Rightarrow> 'a action" where
  "ret x w = (Inr x, w)"

definition throw :: "error \<Rightarrow> 'a action" where
  "throw e w = (Inl e, w)"

definition andThen :: "'a action \<Rightarrow> ('a \<Rightarrow> 'b action) \<Rightarrow> 'b action" where
  "andThen m f w = (case m w of (Inl e, w') \<Rightarrow> (Inl e, w') | (Inr x, w') \<Rightarrow> f x w')"

text \<open>\<open>`${Date.now()}-${Math.random().toString(36).slice(2)}`\<close>\<close>

definition freshStamp :: "env \<Rightarrow> jsstring action" where
  "freshStamp e w = (Inr (stamp e (ticks w)), w\<lparr>ticks := Suc (ticks w)\<rparr>)"

text \<open>\<open>Bun.write(path, data)\<close>\<close>

definition writeFile :: "jsstring \<Rightarrow> bytes \<Rightarrow> unit action" where
  "writeFile path content w = (Inr (), w\<lparr>files := (files w)(path \<mapsto> content)\<rparr>)"

text \<open>\<open>Bun.file(path).arrayBuffer()\<close>, which rejects when there is no such file.\<close>

definition readFile :: "jsstring \<Rightarrow> bytes action" where
  "readFile path w =
     (case files w path of
        None \<Rightarrow> (Inl (Error (js ''ENOENT: no such file or directory'')), w)
      | Some content \<Rightarrow> (Inr content, w))"

definition logCall :: "call \<Rightarrow> unit action" where
  "logCall c w = (Inr (), w\<lparr>calls := calls w @ [c]\<rparr>)"

text \<open>\<open>Bun.spawn(argv)\<close> with both pipes read and \<open>proc.exited\<close> awaited.\<close>

definition runProcess :: "env \<Rightarrow> jsstring list \<Rightarrow> procResult action" where
  "runProcess e argv w =
     (let w1 = w\<lparr>calls := calls w @ [CallSpawn argv]\<rparr> in
      case spawn e argv (files w1) of
        Inl message \<Rightarrow> (Inl (Error message), w1)
      | Inr r \<Rightarrow> (Inr r, w1\<lparr>files := filesAfter r\<rparr>))"

text \<open>Decimal digits of a number, for the template strings.\<close>

fun showNat :: "nat \<Rightarrow> jsstring" where
  "showNat n = (if n < 10 then [48 + n] else showNat (n div 10) @ [48 + n mod 10])"

definition MAX_FILE_BYTES :: nat where
  "MAX_FILE_BYTES = 50 * 1024 * 1024"

section \<open>Limits and the stream helper\<close>

definition enforceFileLimit :: "upload \<Rightarrow> unit action" where
  "enforceFileLimit file =
     (if length (upContent file) > MAX_FILE_BYTES
      then throw (HTTPException 413 (js ''File too large. Max size is 50MB.''))
      else ret ())"

definition enforceStringLimit :: "env \<Rightarrow> jsstring \<Rightarrow> jsstring \<Rightarrow> unit action" where
  "enforceStringLimit e name text =
     (let size = length (textEncode e text) in
      if size > MAX_FILE_BYTES
      then throw (HTTPException 413 (name @ js '' too large. Max size is 50MB.''))
      else ret ())"

definition streamFile :: "jsstring \<Rightarrow> jsstring \<Rightarrow> jsstring \<Rightarrow> response action" where
  "streamFile path filename mime w = (Inr (Stream (files w path) filename mime), w)"

section \<open>The converter adapters\<close>

text \<open>\<open>process.env.X || "default"\<close>: an unset or empty variable gives the default.\<close>

definition orDefault :: "jsstring option \<Rightarrow> jsstring \<Rightarrow> jsstring" where
  "orDefault v d = (case v of None \<Rightarrow> d | Some s \<Rightarrow> if s \<noteq> [] then s else d)"

definition htmlToPdfWithWK_toPath :: "env \<Rightarrow> jsstring \<Rightarrow> jsstring \<Rightarrow> jsstring action" where
  "htmlToPdfWithWK_toPath e html outNameBase =
     andThen (freshStamp e) (\<lambda>s1.
     andThen (freshStamp e) (\<lambda>s2.
       let htmlPath = joinTempDir e (s1 @ js ''-'' @ outNameBase @ js ''.html'');
           pdfPath = joinTempDir e (s2 @ js ''-'' @ outNameBase @ js ''.pdf'');
           bin = orDefault (envWKHTMLTOPDF_PATH e) (js ''wkhtmltopdf'');
           args = [js ''--quiet'', js ''--enable-local-file-access'', js ''--print-media-type'',
                   js ''--margin-top'', js ''12mm'', js ''--margin-right'', js ''12mm'',
                   js ''--margin-bottom'', js ''12mm'', js ''--margin-left'', js ''12mm'',
                   htmlPath, pdfPath]
       in
     andThen (writeFile htmlPath (textEncode e html)) (\<lambda>_.
     andThen (runProcess e (bin # args)) (\<lambda>proc.
       if exitCode proc \<noteq> 0 then
         throw (Error (js ''wkhtmltopdf failed ('' @ showNat (exitCode proc) @ js '')'' @ [10] @
                       js ''STDOUT:'' @ [10] @ stdoutText proc @ [10] @
                       js ''STDERR:'' @ [10] @ stderrText proc))
       else ret pdfPath))))"

definition rtfToHtmlWithUnrtf :: "env \<Rightarrow> bytes \<Rightarrow> jsstring action" where
  "rtfToHtmlWithUnrtf e rtfBytes =
     andThen (freshStamp e) (\<lambda>s.
       let rtfPath = joinTempDir e (s @ js ''.rtf'');
           bin = orDefault (envUNRTF_PATH e) (js ''unrtf'')
       in
     andThen (writeFile rtfPath rtfBytes) (\<lambda>_.
     andThen (runProcess e [bin, js ''--html'', js ''--quiet'', rtfPath]) (\<lambda>proc.
       if exitCode proc \<noteq> 0 then
         throw (Error (js ''unrtf failed ('' @ showNat (exitCode proc) @ js '')'' @ [10] @
                       js ''STDERR:'' @ [10] @ stderrText proc))
       else ret (stdoutText proc))))"

text \<open>\<open>mammoth.convertToHtml({ buffer })\<close>, of which the handlers use the \<open>value\<close>.\<close>

definition mammothToHtml :: "env \<Rightarrow> bytes \<Rightarrow> jsstring action" where
  "mammothToHtml e buffer =
     andThen (logCall (CallMammoth buffer)) (\<lambda>_.
       case mammothConvertToHtml e buffer of
         Inl message \<Rightarrow> throw (Error message)
       | Inr html \<Rightarrow> ret html)"

text \<open>The pages \<open>txtToPdf_toPath\<close> builds from the bytes it is given.\<close>

definition txtPages :: "env \<Rightarrow> bytes \<Rightarrow> jsstring \<Rightarrow> page list" where
  "txtPages e content filename = txtDocument (embedFont e) (textDecode e content) filename"

text \<open>The first string of a list that the font cannot encode, as the message of the
  error thrown for it.\<close>

fun firstFailure :: "(jsstring \<Rightarrow> jsstring option) \<Rightarrow> jsstring list \<Rightarrow> jsstring option" where
  "firstFailure enc [] = None"
| "firstFailure enc (s # rest) =
     (case enc s of Some message \<Rightarrow> Some message | None \<Rightarrow> firstFailure enc rest)"

text \<open>
  The adapter throws out of the layout, before anything is saved or written, when the
  library refuses one of the strings it is given; otherwise it saves the document and
  writes it to a fresh path.
\<close>

definition txtToPdf_toPath :: "env \<Rightarrow> bytes \<Rightarrow> jsstring \<Rightarrow> jsstring action" where
  "txtToPdf_toPath e content filename =
     andThen (logCall (CallTxtToPdf content filename)) (\<lambda>_.
       case firstFailure (encodeFailure e)
              (encodedStrings (embedFont e) (textDecode e content) filename) of
         Some message \<Rightarrow> throw (Error message)
       | None \<Rightarrow>
           (let pdfBytes = pdfSave e (txtPages e content filename) in
            andThen (freshStamp e) (\<lambda>s.
              let outPath =
                joinTempDir e (s @ js ''-'' @ basenameExt filename (js ''.txt'') @ js ''.pdf'')
              in
            andThen (writeFile outPath pdfBytes) (\<lambda>_. ret outPath))))"

section \<open>ZIP utilities\<close>

text \<open>\<open>Map.prototype.set\<close> on the list of a map's entries in insertion order: an existing
  key keeps its place and takes the new value, a new key goes to the end.\<close>

fun mapSet :: "'k \<Rightarrow> 'v \<Rightarrow> ('k \<times> 'v) list \<Rightarrow> ('k \<times> 'v) list" where
  "mapSet k v [] = [(k, v)]"
| "mapSet k v ((k', v') # m) = (if k' = k then (k, v) # m else (k', v') # mapSet k v m)"

definition unzipToMap :: "env \<Rightarrow> bytes \<Rightarrow> (jsstring \<times> bytes) list action" where
  "unzipToMap e zipBytes =
     (case unzipSync e zipBytes of
        Inl message \<Rightarrow> throw (Error message)
      | Inr out \<Rightarrow> ret (foldl (\<lambda>m (k, v). mapSet k v m) [] out))"

definition zipFromMap_toPath :: "env \<Rightarrow> (jsstring \<times> bytes) list \<Rightarrow> jsstring \<Rightarrow> jsstring action" where
  "zipFromMap_toPath e entries outBase =
     (let input = foldl (\<lambda>m (k, v). mapSet k v m) [] entries;
          zipped = zipSync e input
      in
     andThen (freshStamp e) (\<lambda>s.
       let outPath = joinTempDir e (s @ js ''-'' @ outBase @ js ''.zip'') in
     andThen (writeFile outPath zipped) (\<lambda>_. ret outPath)))"

section \<open>Request helpers\<close>

text \<open>\<open>form.get(key)\<close>: the first value of that name.\<close>

definition formGet :: "(jsstring \<times> formvalue) list \<Rightarrow> jsstring \<Rightarrow> formvalue option" where
  "formGet form key = map_of form key"

definition formDataOf :: "request \<Rightarrow> (jsstring \<times> formvalue) list action" where
  "formDataOf req =
     (case reqFormData req of Inl message \<Rightarrow> throw (Error message) | Inr form \<Rightarrow> ret form)"

definition readFormFile :: "request \<Rightarrow> jsstring \<Rightarrow> upload action" where
  "readFormFile req key =
     andThen (formDataOf req) (\<lambda>form.
       case formGet form key of
         Some (FFile f) \<Rightarrow> ret f
       | _ \<Rightarrow> throw (HTTPException 400
                (js ''Expected multipart/form-data with a '' @ [39] @ key @ [39] @ js '' file field.'')))"

definition getUrlFromRequest :: "request \<Rightarrow> jsstring action" where
  "getUrlFromRequest req =
     (let ct = (case reqContentType req of None \<Rightarrow> [] | Some h \<Rightarrow> h);
          fail = throw (HTTPException 400
             (js ''Provide a URL via JSON { '' @ [34] @ js ''url'' @ [34] @ js '': '' @ [34] @
              js ''<https://...>'' @ [34] @ js '' } or form-data field '' @ [34] @ js ''url'' @
              [34] @ js ''.''))
      in
      if startsWith ct (js ''application/json'') then
        (case reqJsonUrl req of
           Some u \<Rightarrow> if u \<noteq> [] then ret u else fail
         | None \<Rightarrow> fail)
      else if startsWith ct (js ''multipart/form-data'') then
        andThen (formDataOf req) (\<lambda>form.
          case formGet form (js ''url'') of
            Some (FString u) \<Rightarrow> ret u
          | _ \<Rightarrow> fail)
      else fail)"

section \<open>URL utilities\<close>

text \<open>\<open>s.trim()\<close>\<close>

definition trim :: "jsstring \<Rightarrow> jsstring" where
  "trim s = rev (dropWhile isWhiteSpace (rev (dropWhile isWhiteSpace s)))"

text \<open>A header value or other string used as a condition: \<open>null\<close> and the empty string
  are false.\<close>

definition truthy :: "jsstring option \<Rightarrow> bool" where
  "truthy v \<longleftrightarrow> (case v of None \<Rightarrow> False | Some s \<Rightarrow> s \<noteq> [])"

definition guessExtFromContentType :: "jsstring option \<Rightarrow> jsstring option" where
  "guessExtFromContentType ct =
     (case ct of
        None \<Rightarrow> None
      | Some h \<Rightarrow>
          if h = [] then None
          else
            (let t = toLowerCase (trim (takeWhile (\<lambda>c. c \<noteq> 59) h)) in
             if t = js ''application/pdf'' then Some (js ''.pdf'')
             else if t = js ''application/vnd.openxmlformats-officedocument.wordprocessingml.document''
               then Some (js ''.docx'')
             else if t = js ''text/plain'' then Some (js ''.txt'')
             else if t = js ''text/html'' then Some (js ''.html'')
             else if t = js ''application/rtf'' then Some (js ''.rtf'')
             else if t = js ''application/zip'' \<or> t = js ''application/x-zip-compressed''
               then Some (js ''.zip'')
             else None))"

text \<open>
  The first group of \<open>/filename\*?=(?:UTF-8''|")?([^";]+)/i\<close>: \<open>dispositionAt s\<close> is
  the match that starts at the head of \<open>s\<close>, with the optional prefix taken when the
  group can still match after it; \<open>execDisposition\<close> tries the positions from left to
  right.
\<close>

definition startsWithCI :: "jsstring \<Rightarrow> jsstring \<Rightarrow> bool" where
  "startsWithCI s prefix \<longleftrightarrow> startsWith (toLowerCase s) (toLowerCase prefix)"

definition nameChars :: "jsstring \<Rightarrow> jsstring" where
  "nameChars s = takeWhile (\<lambda>c. c \<noteq> 34 \<and> c \<noteq> 59) s"

definition dispositionAt :: "jsstring \<Rightarrow> jsstring option" where
  "dispositionAt s =
     (if startsWithCI s (js ''filename'') then
        (let r1 = drop 8 s;
             r2 = (if startsWith r1 (js ''*'') then drop 1 r1 else r1)
         in if startsWith r2 (js ''='') then
              (let r3 = drop 1 r2 in
               if startsWithCI r3 (js ''UTF-8'' @ [39, 39]) \<and> nameChars (drop 7 r3) \<noteq> []
                 then Some (nameChars (drop 7 r3))
               else if startsWith r3 [34] \<and> nameChars (drop 1 r3) \<noteq> []
                 then Some (nameChars (drop 1 r3))
               else if nameChars r3 \<noteq> [] then Some (nameChars r3)
               else None)
            else None)
      else None)"

fun execDisposition :: "jsstring \<Rightarrow> jsstring option" where
  "execDisposition [] = dispositionAt []"
| "execDisposition (c # cs) =
     (case dispositionAt (c # cs) of Some m \<Rightarrow> Some m | None \<Rightarrow> execDisposition cs)"

definition dispositionName :: "jsstring option \<Rightarrow> jsstring option" where
  "dispositionName cd = (case cd of None \<Rightarrow> None | Some h \<Rightarrow> if h \<noteq> [] then execDisposition h else None)"

text \<open>The whole body of \<open>extFromUrlOrDisposition\<close> is in a \<open>try\<close> that turns any exception
  into \<open>null\<close>.\<close>

definition extFromUrl :: "env \<Rightarrow> jsstring \<Rightarrow> jsstring option" where
  "extFromUrl e urlStr =
     (case urlPathname e urlStr of
        None \<Rightarrow> None
      | Some pathname \<Rightarrow>
          (let x = extname pathname in
           if x \<noteq> [] then Some (unicodeLowerCase e x) else None))"

definition extFromUrlOrDisposition :: "env \<Rightarrow> jsstring \<Rightarrow> jsstring option \<Rightarrow> jsstring option" where
  "extFromUrlOrDisposition e urlStr contentDisposition =
     (case dispositionName contentDisposition of
        Some m \<Rightarrow>
          (case decodeURIComponent e (filter (\<lambda>c. c \<noteq> 34) m) of
             None \<Rightarrow> None
           | Some n \<Rightarrow>
               (let x = extname n in
                if x \<noteq> [] then Some (unicodeLowerCase e x) else extFromUrl e urlStr))
      | None \<Rightarrow> extFromUrl e urlStr)"

text \<open>\<open>s.replace(/[^\w.\-]+/g, "_")\<close>: every maximal run of other characters becomes one
  underscore.\<close>

definition isNameChar :: "nat \<Rightarrow> bool" where
  "isNameChar c \<longleftrightarrow>
     (48 \<le> c \<and> c \<le> 57) \<or> (65 \<le> c \<and> c \<le> 90) \<or> (97 \<le> c \<and> c \<le> 122) \<or>
     c = 95 \<or> c = 46 \<or> c = 45"

fun sanitize :: "jsstring \<Rightarrow> jsstring" and skipUnsafe :: "jsstring \<Rightarrow> jsstring" where
  "sanitize [] = []"
| "sanitize (c # cs) = (if isNameChar c then c # sanitize cs else 95 # skipUnsafe cs)"
| "skipUnsafe [] = []"
| "skipUnsafe (c # cs) = (if isNameChar c then c # sanitize cs else skipUnsafe cs)"

text \<open>\<open>file.writer()\<close> and \<open>w.write(value)\<close> with the \<open>w.end()\<close> that follows: the file is
  there from the moment it is opened and holds what has been written.\<close>

definition openWriter :: "jsstring \<Rightarrow> unit action" where
  "openWriter path w = (Inr (), w\<lparr>files := (files w)(path \<mapsto> [])\<rparr>)"

definition appendFile :: "jsstring \<Rightarrow> bytes \<Rightarrow> unit action" where
  "appendFile path chunk w =
     (Inr (), w\<lparr>files := (files w)(path \<mapsto>
        (case files w path of None \<Rightarrow> chunk | Some written \<Rightarrow> written @ chunk))\<rparr>)"

text \<open>The loop \<open>while (true)\<close> of \<open>downloadUrlToTemp\<close> over the chunks the reader yields;
  the end of the list is \<open>done\<close>.\<close>

fun readLoop :: "jsstring \<Rightarrow> nat \<Rightarrow> nat \<Rightarrow> bytes list \<Rightarrow> unit action" where
  "readLoop tmpPath maxBytes received [] = ret ()"
| "readLoop tmpPath maxBytes received (chunk # rest) =
     (let received1 = received + length chunk in
      if received1 > maxBytes
      then throw (HTTPException 413 (js ''Remote file exceeds 50MB limit.''))
      else andThen (appendFile tmpPath chunk) (\<lambda>_. readLoop tmpPath maxBytes received1 rest))"

definition resolveBaseName :: "env \<Rightarrow> jsstring \<Rightarrow> jsstring option \<Rightarrow> jsstring action" where
  "resolveBaseName e urlStr cd =
     (case dispositionName cd of
        Some m \<Rightarrow> ret m
      | None \<Rightarrow>
          (case urlPathname e urlStr of
             None \<Rightarrow> throw (Error (js ''Invalid URL''))
           | Some pathname \<Rightarrow>
               (let b = basename pathname in ret (if b \<noteq> [] then b else js ''download''))))"

text \<open>The part of \<open>downloadUrlToTemp\<close> that resolves the file name from the response
  headers and the URL (the extension found in the disposition or the URL comes before the
  one guessed from the content type).\<close>

definition resolveFilename :: "env \<Rightarrow> jsstring \<Rightarrow> fetched \<Rightarrow> jsstring action" where
  "resolveFilename e urlStr res =
     (let ct = fContentType res;
          cd = fContentDisposition res;
          extByCT = guessExtFromContentType ct;
          extByURL = extFromUrlOrDisposition e urlStr cd;
          ext = unicodeLowerCase e
            (case extByURL of
               Some x \<Rightarrow> x
             | None \<Rightarrow> (case extByCT of Some x \<Rightarrow> x | None \<Rightarrow> []))
      in
      andThen (resolveBaseName e urlStr cd) (\<lambda>baseName.
        case decodeURIComponent e baseName of
          None \<Rightarrow> throw (Error (js ''URI malformed''))
        | Some decoded \<Rightarrow>
            (let safeBase = (let s = sanitize decoded in if s \<noteq> [] then s else js ''download'')
             in ret (if ext \<noteq> [] then
                       (if endsWith safeBase ext then safeBase else safeBase @ ext)
                     else safeBase))))"

definition downloadUrlToTemp ::
  "env \<Rightarrow> jsstring \<Rightarrow> nat \<Rightarrow> (jsstring \<times> jsstring \<times> jsstring option) action" where
  "downloadUrlToTemp e urlStr maxBytes =
     (case fetch e urlStr of
        Inl message \<Rightarrow> throw (Error message)
      | Inr res \<Rightarrow>
          if \<not> fOk res then
            throw (HTTPException 502
              (js ''Failed to fetch URL (status '' @ showNat (fStatus res) @ js '').''))
          else
            andThen (resolveFilename e urlStr res) (\<lambda>filename.
            andThen (freshStamp e) (\<lambda>s.
              let tmpPath = joinTempDir e (s @ js ''-'' @ filename) in
            andThen (openWriter tmpPath) (\<lambda>_.
              case fBody res of
                None \<Rightarrow> throw (HTTPException 502 (js ''No response body from URL.''))
              | Some chunks \<Rightarrow>
                  andThen (readLoop tmpPath maxBytes 0 chunks) (\<lambda>_.
                    ret (tmpPath, filename, fContentType res))))))"

text \<open>\<open>/<html[\s>]/i.test(html)\<close>\<close>

fun hasHtmlTag :: "jsstring \<Rightarrow> bool" where
  "hasHtmlTag [] = False"
| "hasHtmlTag (c # cs) =
     ((startsWithCI (c # cs) (js ''<html'') \<and>
         (case drop 5 (c # cs) of [] \<Rightarrow> False | d # _ \<Rightarrow> isWhiteSpace d \<or> d = 62))
      \<or> hasHtmlTag cs)"

definition normalizeHtmlWrapper :: "jsstring \<Rightarrow> jsstring" where
  "normalizeHtmlWrapper html =
     (if hasHtmlTag html then html
      else js ''<!doctype html><html><head><meta charset='' @ [34] @ js ''utf-8'' @ [34] @
           js ''></head><body>'' @ html @ js ''</body></html>'')"

definition BASE_CSS :: jsstring where
  "BASE_CSS =
     [10] @ js ''  body{font-family:'' @ [34] @ js ''Liberation Serif'' @ [34] @ js '','' @ [34] @
     js ''DejaVu Serif'' @ [34] @ js '',serif;font-size:12pt;line-height:1.35}'' @ [10] @
     js ''  h1,h2,h3{margin:0.6em 0 0.3em} p,li{margin:0.3em 0}'' @ [10] @
     js ''  table{border-collapse:collapse;width:100%} td,th{border:1px solid #ccc;padding:4px}'' @
     [10]"

section \<open>The routes\<close>

text \<open>The template literal that the RTF and DOCX pipelines put around the converter's
  HTML.\<close>

definition styledDocument :: "jsstring \<Rightarrow> jsstring" where
  "styledDocument html =
     js ''<!doctype html><html><head><meta charset='' @ [34] @ js ''utf-8'' @ [34] @
     js ''><style>'' @ BASE_CSS @ js ''</style></head><body>'' @ html @ js ''</body></html>''"

text \<open>\<open>file.name || "default"\<close>\<close>

definition nameOr :: "jsstring \<Rightarrow> jsstring \<Rightarrow> jsstring" where
  "nameOr name d = (if name \<noteq> [] then name else d)"

definition convertTxt :: "env \<Rightarrow> request \<Rightarrow> response action" where
  "convertTxt e req =
     andThen (readFormFile req (js ''file'')) (\<lambda>file.
     andThen (enforceFileLimit file) (\<lambda>_.
       let name = nameOr (upName file) (js ''document.txt'') in
       if \<not> endsWithCI name (js ''.txt'')
       then throw (HTTPException 400 (js ''Please upload a .txt file.''))
       else
     andThen (txtToPdf_toPath e (upContent file) name) (\<lambda>pdfPath.
       streamFile pdfPath (basenameExt name (js ''.txt'') @ js ''.pdf'') (js ''application/pdf''))))"

definition convertRtf :: "env \<Rightarrow> request \<Rightarrow> response action" where
  "convertRtf e req =
     andThen (readFormFile req (js ''file'')) (\<lambda>file.
     andThen (enforceFileLimit file) (\<lambda>_.
       let name = nameOr (upName file) (js ''document.rtf'') in
       if \<not> endsWithCI name (js ''.rtf'')
       then throw (HTTPException 400 (js ''Please upload a .rtf file.''))
       else
     andThen (rtfToHtmlWithUnrtf e (upContent file)) (\<lambda>rawHtml.
     andThen (htmlToPdfWithWK_toPath e (styledDocument rawHtml) (basenameExt name (js ''.rtf''))) (\<lambda>pdfPath.
       streamFile pdfPath (basenameExt name (js ''.rtf'') @ js ''.pdf'') (js ''application/pdf'')))))"

definition convertDocx :: "env \<Rightarrow> request \<Rightarrow> response action" where
  "convertDocx e req =
     andThen (readFormFile req (js ''file'')) (\<lambda>file.
     andThen (enforceFileLimit file) (\<lambda>_.
       let name = nameOr (upName file) (js ''document.docx'') in
       if \<not> endsWithCI name (js ''.docx'')
       then throw (HTTPException 400 (js ''Please upload a .docx file.''))
       else
     andThen (mammothToHtml e (upContent file)) (\<lambda>html.
     andThen (htmlToPdfWithWK_toPath e (styledDocument html) (basenameExt name (js ''.docx''))) (\<lambda>pdfPath.
       streamFile pdfPath (basenameExt name (js ''.docx'') @ js ''.pdf'') (js ''application/pdf'')))))"

text \<open>The first part of the HTML route, which chooses the HTML to convert.\<close>

definition htmlInput :: "env \<Rightarrow> request \<Rightarrow> jsstring action" where
  "htmlInput e req =
     andThen (formDataOf req) (\<lambda>form.
       let htmlField = formGet form (js ''html'');
           maybeFile = formGet form (js ''file'')
       in case maybeFile of
            Some (FFile f) \<Rightarrow>
              andThen (enforceFileLimit f) (\<lambda>_.
                let name = nameOr (upName f) (js ''document.html'') in
                if \<not> (endsWithCI name (js ''.htm'') \<or> endsWithCI name (js ''.html'') \<or>
                        endsWithCI name (js ''.xhtml''))
                then throw (HTTPException 400
                       (js ''Please upload a .html/.htm file or provide an '' @ [34] @ js ''html'' @
                        [34] @ js '' field.''))
                else ret (textDecode e (upContent f)))
          | _ \<Rightarrow>
              (case htmlField of
                 Some (FString s) \<Rightarrow>
                   andThen (enforceStringLimit e (js ''HTML content'') s) (\<lambda>_. ret s)
               | _ \<Rightarrow> throw (HTTPException 400
                        (js ''Provide either file=*.html or a text field '' @ [34] @ js ''html'' @
                         [34] @ js ''.''))))"

definition convertHtml :: "env \<Rightarrow> request \<Rightarrow> response action" where
  "convertHtml e req =
     andThen (htmlInput e req) (\<lambda>html.
       let wrapped = normalizeHtmlWrapper html in
     andThen (htmlToPdfWithWK_toPath e wrapped (js ''html-upload'')) (\<lambda>pdfPath.
       streamFile pdfPath (js ''document.pdf'') (js ''application/pdf'')))"

text \<open>\<open>path.replace(/\.ext$/i, ".pdf")\<close>: a path that ends with the extension, in any
  case, has it replaced; any other path is returned as it is.\<close>

definition replaceExt :: "jsstring \<Rightarrow> jsstring \<Rightarrow> jsstring" where
  "replaceExt path ext =
     (if endsWithCI path ext then take (length path - length ext) path @ js ''.pdf'' else path)"

text \<open>\<open>path.replace(/\.(html|htm)$/i, ".pdf")\<close>\<close>

definition replaceHtmlExt :: "jsstring \<Rightarrow> jsstring" where
  "replaceHtmlExt path =
     (if endsWithCI path (js ''.html'') then replaceExt path (js ''.html'')
      else replaceExt path (js ''.htm''))"

text \<open>The body of the loop over the entries of the archive: \<open>out\<close> is the map being
  filled.\<close>

definition zipEntry ::
  "env \<Rightarrow> (jsstring \<times> bytes) list \<Rightarrow> jsstring \<Rightarrow> bytes \<Rightarrow> (jsstring \<times> bytes) list action" where
  "zipEntry e out path content =
     (let ext = toLowerCase (extname path) in
      if ext = js ''.txt'' then
        andThen (txtToPdf_toPath e content (basename path)) (\<lambda>pdfPath.
        andThen (readFile pdfPath) (\<lambda>pdfBytes.
          ret (mapSet (replaceExt path (js ''.txt'')) pdfBytes out)))
      else if ext = js ''.docx'' then
        andThen (mammothToHtml e content) (\<lambda>html.
        andThen (htmlToPdfWithWK_toPath e (styledDocument html) (basename path)) (\<lambda>pdfPath.
        andThen (readFile pdfPath) (\<lambda>pdfBytes.
          ret (mapSet (replaceExt path (js ''.docx'')) pdfBytes out))))
      else if ext = js ''.rtf'' then
        andThen (rtfToHtmlWithUnrtf e content) (\<lambda>rawHtml.
        andThen (htmlToPdfWithWK_toPath e (styledDocument rawHtml) (basename path)) (\<lambda>pdfPath.
        andThen (readFile pdfPath) (\<lambda>pdfBytes.
          ret (mapSet (replaceExt path (js ''.rtf'')) pdfBytes out))))
      else if ext = js ''.html'' \<or> ext = js ''.htm'' then
        (let wrapped = normalizeHtmlWrapper (textDecode e content) in
        andThen (htmlToPdfWithWK_toPath e wrapped (basename path)) (\<lambda>pdfPath.
        andThen (readFile pdfPath) (\<lambda>pdfBytes.
          ret (mapSet (replaceHtmlExt path) pdfBytes out))))
      else ret out)"

fun zipLoop ::
  "env \<Rightarrow> (jsstring \<times> bytes) list \<Rightarrow> (jsstring \<times> bytes) list \<Rightarrow> (jsstring \<times> bytes) list action" where
  "zipLoop e out [] = ret out"
| "zipLoop e out ((path, content) # rest) =
     andThen (zipEntry e out path content) (\<lambda>out1. zipLoop e out1 rest)"

definition convertZip :: "env \<Rightarrow> request \<Rightarrow> response action" where
  "convertZip e req =
     andThen (readFormFile req (js ''file'')) (\<lambda>file.
     andThen (enforceFileLimit file) (\<lambda>_.
       let name = nameOr (upName file) (js ''archive.zip'') in
       if \<not> endsWithCI name (js ''.zip'')
       then throw (HTTPException 400 (js ''Please upload a .zip file.''))
       else
     andThen (unzipToMap e (upContent file)) (\<lambda>entries.
     andThen (zipLoop e [] entries) (\<lambda>out.
     andThen (zipFromMap_toPath e out (basenameExt name (js ''.zip'') @ js ''-pdfs'')) (\<lambda>outZipPath.
       streamFile outZipPath (basename outZipPath) (js ''application/zip''))))))"

text \<open>
  The chain of \<open>if\<close>s of the URL route, as the choice it makes from the extension of
  the resolved file name and the \<open>Content-Type\<close>: each condition is
  \<open>ext === X || (contentType && guessExtFromContentType(contentType) === X)\<close>, tested
  in this order; the block for ZIP is commented out in the source, so nothing follows
  the HTML test but the final \<open>throw\<close>.
\<close>

datatype pipeline = PdfAsIs | TxtPipeline | DocxPipeline | RtfPipeline | HtmlPipeline | Unsupported

definition typeIs :: "jsstring option \<Rightarrow> jsstring \<Rightarrow> bool" where
  "typeIs contentType x \<longleftrightarrow> truthy contentType \<and> guessExtFromContentType contentType = Some x"

definition choosePipeline :: "jsstring \<Rightarrow> jsstring option \<Rightarrow> pipeline" where
  "choosePipeline ext contentType =
     (if ext = js ''.pdf'' \<or> typeIs contentType (js ''.pdf'') then PdfAsIs
      else if ext = js ''.txt'' \<or> typeIs contentType (js ''.txt'') then TxtPipeline
      else if ext = js ''.docx'' \<or> typeIs contentType (js ''.docx'') then DocxPipeline
      else if ext = js ''.rtf'' \<or> typeIs contentType (js ''.rtf'') then RtfPipeline
      else if ext = js ''.html'' \<or> ext = js ''.htm'' \<or> typeIs contentType (js ''.html'')
        then HtmlPipeline
      else Unsupported)"

definition isHttpUrl :: "jsstring \<Rightarrow> bool" where
  "isHttpUrl urlStr \<longleftrightarrow> startsWithCI urlStr (js ''http://'') \<or> startsWithCI urlStr (js ''https://'')"

text \<open>The URL route after the download.\<close>

definition convertDownloaded ::
  "env \<Rightarrow> jsstring \<Rightarrow> jsstring \<Rightarrow> jsstring option \<Rightarrow> response action" where
  "convertDownloaded e tmpPath filename contentType =
     (let ext = toLowerCase (extname filename) in
      case choosePipeline ext contentType of
        PdfAsIs \<Rightarrow> streamFile tmpPath filename (js ''application/pdf'')
      | TxtPipeline \<Rightarrow>
          andThen (readFile tmpPath) (\<lambda>content.
          andThen (txtToPdf_toPath e content filename) (\<lambda>pdfPath.
            streamFile pdfPath (basenameExt filename (js ''.txt'') @ js ''.pdf'')
              (js ''application/pdf'')))
      | DocxPipeline \<Rightarrow>
          andThen (readFile tmpPath) (\<lambda>buffer.
          andThen (mammothToHtml e buffer) (\<lambda>html.
          andThen (htmlToPdfWithWK_toPath e (styledDocument html)
                     (basenameExt filename (js ''.docx''))) (\<lambda>pdfPath.
            streamFile pdfPath (basenameExt filename (js ''.docx'') @ js ''.pdf'')
              (js ''application/pdf''))))
      | RtfPipeline \<Rightarrow>
          andThen (readFile tmpPath) (\<lambda>content.
          andThen (rtfToHtmlWithUnrtf e content) (\<lambda>rawHtml.
          andThen (htmlToPdfWithWK_toPath e (styledDocument rawHtml)
                     (basenameExt filename (js ''.rtf''))) (\<lambda>pdfPath.
            streamFile pdfPath (basenameExt filename (js ''.rtf'') @ js ''.pdf'')
              (js ''application/pdf''))))
      | HtmlPipeline \<Rightarrow>
          andThen (readFile tmpPath) (\<lambda>content.
            let htmlText = textDecode e content;
                wrapped = normalizeHtmlWrapper htmlText;
                suffix = (if ext \<noteq> [] then ext else js ''.html'')
            in
          andThen (htmlToPdfWithWK_toPath e wrapped (basenameExt filename suffix)) (\<lambda>pdfPath.
            streamFile pdfPath (basenameExt filename suffix @ js ''.pdf'')
              (js ''application/pdf'')))
      | Unsupported \<Rightarrow>
          throw (HTTPException 415
            (js ''Unsupported remote type. Allowed: pdf, docx, txt, rtf, html, zip.'')))"

definition convertUrl :: "env \<Rightarrow> request \<Rightarrow> response action" where
  "convertUrl e req =
     andThen (getUrlFromRequest req) (\<lambda>urlStr.
       if \<not> isHttpUrl urlStr
       then throw (HTTPException 400 (js ''Only http(s) URLs are supported.''))
       else
     andThen (downloadUrlToTemp e urlStr MAX_FILE_BYTES) (\<lambda>(tmpPath, filename, contentType).
       convertDownloaded e tmpPath filename contentType))"

text \<open>What the client receives: the handler's response, or the envelope of what it threw.\<close>

definition respond :: "response action \<Rightarrow> world \<Rightarrow> response \<times> world" where
  "respond handler w =
     (case handler w of (Inl err, w') \<Rightarrow> (onError err, w') | (Inr r, w') \<Rightarrow> (r, w'))"

section \<open>Notions used to state the properties\<close>

text \<open>The entries the batch converts, and the key under which an entry's PDF is stored,
  as \<open>zipEntry\<close> computes them.\<close>

definition entrySupported :: "jsstring \<Rightarrow> bool" where
  "entrySupported path \<longleftrightarrow>
     toLowerCase (extname path) \<in> {js ''.txt'', js ''.docx'', js ''.rtf'', js ''.html'', js ''.htm''}"

definition entryTarget :: "jsstring \<Rightarrow> jsstring" where
  "entryTarget path =
     (let ext = toLowerCase (extname path) in
      if ext = js ''.txt'' then replaceExt path (js ''.txt'')
      else if ext = js ''.docx'' then replaceExt path (js ''.docx'')
      else if ext = js ''.rtf'' then replaceExt path (js ''.rtf'')
      else replaceHtmlExt path)"

text \<open>The pipeline that an extension denotes, the one that a \<open>Content-Type\<close> denotes by
  the table of \<open>guessExtFromContentType\<close>, and the place of a pipeline in the order in
  which the URL route tests them.\<close>

definition pipelineOfExt :: "jsstring \<Rightarrow> pipeline" where
  "pipelineOfExt ext =
     (if ext = js ''.pdf'' then PdfAsIs
      else if ext = js ''.txt'' then TxtPipeline
      else if ext = js ''.docx'' then DocxPipeline
      else if ext = js ''.rtf'' then RtfPipeline
      else if ext = js ''.html'' \<or> ext = js ''.htm'' then HtmlPipeline
      else Unsupported)"

definition pipelineOfType :: "jsstring option \<Rightarrow> pipeline" where
  "pipelineOfType contentType =
     (case guessExtFromContentType contentType of
        None \<Rightarrow> Unsupported
      | Some x \<Rightarrow> pipelineOfExt x)"

fun testOrder :: "pipeline \<Rightarrow> nat" where
  "testOrder PdfAsIs = 0"
| "testOrder TxtPipeline = 1"
| "testOrder DocxPipeline = 2"
| "testOrder RtfPipeline = 3"
| "testOrder HtmlPipeline = 4"
| "testOrder Unsupported = 5"

text \<open>The total size of the chunks of a download.\<close>

definition totalBytes :: "bytes list \<Rightarrow> nat" where
  "totalBytes chunks = sum_list (map length chunks)"

text \<open>The path of the temporary file that \<open>downloadUrlToTemp\<close> opens for a resolved
  file name, in a given world.\<close>

definition tempFor :: "env \<Rightarrow> world \<Rightarrow> jsstring \<Rightarrow> jsstring" where
  "tempFor e w filename = joinTempDir e (stamp e (ticks w) @ js ''-'' @ filename)"

section \<open>A small environment for examples\<close>

text \<open>
  Stand-ins for the collaborators: a font that encodes every string, the UTF-8 codec and
  the lower-casing on ASCII, a \<open>pdf.save()\<close> that returns
  the bytes of the body lines, a \<open>unrtf\<close> that prints the file it is given, a
  \<open>wkhtmltopdf\<close> that copies its input file to its output file, an archive library that
  reads one archive (the bytes \<open>PK\<close> stand for the archive with the colliding entries), a
  \<open>fetch\<close> that fails, a URL parser that returns what follows the first slash after
  \<open>scheme://\<close>, and temporary names \<open>/tmp/n-name\<close>.
\<close>

text \<open>An archive in which two supported entries share their output path, with an entry
  that the batch does not convert between them.\<close>

definition collidingEntries :: "(jsstring \<times> bytes) list" where
  "collidingEntries =
     [(js ''a.txt'', [104, 105]), (js ''setup.exe'', [77, 90]), (js ''a.rtf'', [114])]"

definition exampleSpawn :: "jsstring list \<Rightarrow> (jsstring \<rightharpoonup> bytes) \<Rightarrow> jsstring + procResult" where
  "exampleSpawn argv fs =
     (case argv of
        [] \<Rightarrow> Inl (js ''ENOENT'')
      | bin # args \<Rightarrow>
          if bin = js ''unrtf'' then
            Inr \<lparr>exitCode = 0,
                 stdoutText = (case fs (last argv) of None \<Rightarrow> [] | Some b \<Rightarrow> map unat b),
                 stderrText = [], filesAfter = fs\<rparr>
          else
            Inr \<lparr>exitCode = 0, stdoutText = [], stderrText = [],
                 filesAfter = fs(last argv := fs (last (butlast argv)))\<rparr>)"

definition examplePathname :: "jsstring \<Rightarrow> jsstring option" where
  "examplePathname urlStr =
     (let afterScheme = drop 2 (dropWhile (\<lambda>c. c \<noteq> 47) urlStr)
      in Some (dropWhile (\<lambda>c. c \<noteq> 47) afterScheme))"

definition exampleEnv :: env where
  "exampleEnv =
     \<lparr>embedFont = halfEm,
      encodeFailure = (\<lambda>s. None),
      pdfSave = (\<lambda>pages. map of_nat (concat (bodyLines pages))),
      textDecode = map unat,
      textEncode = map of_nat,
      unicodeLowerCase = toLowerCase,
      spawn = exampleSpawn,
      envWKHTMLTOPDF_PATH = None,
      envUNRTF_PATH = None,
      mammothConvertToHtml = (\<lambda>b. Inr (map unat b)),
      unzipSync = (\<lambda>b. if b = [80, 75] then Inr collidingEntries else Inl (js ''invalid zip data'')),
      zipSync = (\<lambda>entries. concat (map snd entries)),
      fetch = (\<lambda>u. Inl (js ''fetch failed'')),
      urlPathname = examplePathname,
      decodeURIComponent = Some,
      joinTempDir = (\<lambda>name. js ''/tmp/'' @ name),
      stamp = showNat\<rparr>"

definition emptyWorld :: world where
  "emptyWorld = \<lparr>files = Map.empty, calls = [], ticks = 0\<rparr>"

text \<open>A remote server that answers every URL with the given headers and chunks.\<close>

definition serving :: "jsstring option \<Rightarrow> jsstring option \<Rightarrow> bytes list \<Rightarrow> env" where
  "serving contentType disposition chunks =
     exampleEnv\<lparr>fetch := (\<lambda>u. Inr \<lparr>fOk = True, fStatus = 200, fContentType = contentType,
                                   fContentDisposition = disposition, fBody = Some chunks\<rparr>)\<rparr>"

definition jsonRequest :: "jsstring \<Rightarrow> request" where
  "jsonRequest urlStr =
     \<lparr>reqContentType = Some (js ''application/json''),
      reqFormData = Inl (js ''not a form''),
      reqJsonUrl = Some urlStr\<rparr>"

definition formRequest :: "(jsstring \<times> formvalue) list \<Rightarrow> request" where
  "formRequest form =
     \<lparr>reqContentType = Some (js ''multipart/form-data; boundary=x''),
      reqFormData = Inr form,
      reqJsonUrl = None\<rparr>"

text \<open>An upload of one byte more than the limit.\<close>

definition oversizedUpload :: upload where
  "oversizedUpload = \<lparr>upName = js ''big.txt'', upContent = replicate 52428801 0\<rparr>"

section \<open>Proofs about the text adapter\<close>

lemma chunkStep_fits:
  "(\<forall>l \<in> set (fst st). font l fontSize \<le> maxWidth) \<Longrightarrow>
   (snd st = [] \<or> font (snd st) fontSize \<le> maxWidth) \<Longrightarrow>
   font [ch] fontSize \<le> maxWidth \<Longrightarrow>
   (\<forall>l \<in> set (fst (chunkStep font st ch)). font l fontSize \<le> maxWidth) \<and>
   (snd (chunkStep font st ch) = [] \<or> font (snd (chunkStep font st ch)) fontSize \<le> maxWidth)"
  by (cases st) (auto simp: chunkStep_def Let_def)

lemma chunkFold_fits:
  "(\<forall>l \<in> set (fst st). font l fontSize \<le> maxWidth) \<Longrightarrow>
   (snd st = [] \<or> font (snd st) fontSize \<le> maxWidth) \<Longrightarrow>
   (\<forall>ch. font [ch] fontSize \<le> maxWidth) \<Longrightarrow>
   (\<forall>l \<in> set (fst (foldl (chunkStep font) st w)). font l fontSize \<le> maxWidth) \<and>
   (snd (foldl (chunkStep font) st w) = [] \<or> font (snd (foldl (chunkStep font) st w)) fontSize \<le> maxWidth)"
proof (induction w arbitrary: st)
  case Nil
  then show ?case by simp
next
  case (Cons c w)
  have "(\<forall>l \<in> set (fst (chunkStep font st c)). font l fontSize \<le> maxWidth) \<and>
   (snd (chunkStep font st c) = [] \<or> font (snd (chunkStep font st c)) fontSize \<le> maxWidth)"
    using Cons.prems by (intro chunkStep_fits) auto
  then show ?case using Cons.IH[of "chunkStep font st c"] Cons.prems(3) by simp
qed

lemma wordStep_fits:
  assumes "\<forall>l \<in> set (fst st). font l fontSize \<le> maxWidth"
    and "snd st = [] \<or> font (snd st) fontSize \<le> maxWidth"
    and "\<forall>ch. font [ch] fontSize \<le> maxWidth"
  shows "(\<forall>l \<in> set (fst (wordStep font st w)). font l fontSize \<le> maxWidth) \<and>
   (snd (wordStep font st w) = [] \<or> font (snd (wordStep font st w)) fontSize \<le> maxWidth)"
proof (cases st)
  case (Pair lines current)
  let ?lines1 = "if current \<noteq> [] then lines @ [current] else lines"
  have l1: "\<forall>l \<in> set (fst (?lines1, [])). font l fontSize \<le> maxWidth"
    using assms(1,2) Pair by auto
  have ch: "(\<forall>l \<in> set (fst (foldl (chunkStep font) (?lines1, []) w)). font l fontSize \<le> maxWidth) \<and>
   (snd (foldl (chunkStep font) (?lines1, []) w) = [] \<or> font (snd (foldl (chunkStep font) (?lines1, []) w)) fontSize \<le> maxWidth)"
    using l1 assms(3) by (intro chunkFold_fits) auto
  show ?thesis
    using assms(1,2) Pair ch
    by (auto simp: wordStep_def Let_def)
qed

lemma wordFold_fits:
  "(\<forall>l \<in> set (fst st). font l fontSize \<le> maxWidth) \<Longrightarrow>
   (snd st = [] \<or> font (snd st) fontSize \<le> maxWidth) \<Longrightarrow>
   (\<forall>ch. font [ch] fontSize \<le> maxWidth) \<Longrightarrow>
   (\<forall>l \<in> set (fst (foldl (wordStep font) st ws)). font l fontSize \<le> maxWidth) \<and>
   (snd (foldl (wordStep font) st ws) = [] \<or> font (snd (foldl (wordStep font) st ws)) fontSize \<le> maxWidth)"
proof (induction ws arbitrary: st)
  case Nil
  then show ?case by simp
next
  case (Cons w ws)
  have "(\<forall>l \<in> set (fst (wordStep font st w)). font l fontSize \<le> maxWidth) \<and>
   (snd (wordStep font st w) = [] \<or> font (snd (wordStep font st w)) fontSize \<le> maxWidth)"
    using Cons.prems by (intro wordStep_fits) auto
  then show ?case using Cons.IH[of "wordStep font st w"] Cons.prems(3) by simp
qed

lemma wrapWords_fits:
  assumes "\<forall>ch. font [ch] fontSize \<le> maxWidth"
  shows "\<forall>l \<in> set (wrapWords font ws). font l fontSize \<le> maxWidth"
proof -
  have "(\<forall>l \<in> set (fst (foldl (wordStep font) ([], []) ws)). font l fontSize \<le> maxWidth) \<and>
   (snd (foldl (wordStep font) ([], []) ws) = [] \<or> font (snd (foldl (wordStep font) ([], []) ws)) fontSize \<le> maxWidth)"
    using assms by (intro wordFold_fits) auto
  then show ?thesis
    by (cases "foldl (wordStep font) ([], []) ws") (auto simp: wrapWords_def)
qed

lemma placeLine_texts:
  "bodyLines (fst (placeLine st l) @ [fst (snd (placeLine st l))]) =
   bodyLines (fst st @ [fst (snd st)]) @ [l]"
  by (cases st) (auto simp: placeLine_def bodyLines_def Let_def split: prod.splits)

lemma foldl_placeLine_texts:
  "bodyLines (fst (foldl placeLine st ls) @ [fst (snd (foldl placeLine st ls))]) =
   bodyLines (fst st @ [fst (snd st)]) @ ls"
proof (induction ls arbitrary: st)
  case Nil
  then show ?case by simp
next
  case (Cons l ls)
  show ?case using Cons.IH[of "placeLine st l"] placeLine_texts[of st l] by simp
qed

lemma bodyLines_paginate: "bodyLines (paginate ls) = ls"
  using foldl_placeLine_texts[of "([], [], snd pageSize - margin)" ls]
  by (auto simp add: paginate_def bodyLines_def split: prod.splits)

lemma paginate_nonempty: "paginate ls \<noteq> []"
  by (simp add: paginate_def split: prod.splits)

lemma bodyLines_drawFooter: "bodyLines (drawFooter font fn ps) = bodyLines ps"
  by (cases ps) (auto simp: drawFooter_def bodyLines_def Let_def fontSize_def)

lemma bodyLines_txtDocument: "bodyLines (txtDocument font text fn) = layoutLines font text"
  by (simp add: txtDocument_def bodyLines_drawFooter bodyLines_paginate)

lemma chunkFold_concat:
  "concat (fst (foldl (chunkStep font) st w)) @ snd (foldl (chunkStep font) st w) =
   concat (fst st) @ snd st @ w"
proof (induction w arbitrary: st)
  case Nil
  then show ?case by simp
next
  case (Cons c w)
  have "concat (fst (chunkStep font st c)) @ snd (chunkStep font st c) = concat (fst st) @ snd st @ [c]"
    by (cases st) (auto simp: chunkStep_def Let_def)
  then show ?case using Cons.IH[of "chunkStep font st c"]
    by (metis append.assoc append_Cons append_Nil foldl_Cons)
qed

lemma wrap_single_wide:
  assumes "font w fontSize > maxWidth"
  shows "concat (wrapWords font [w]) = w"
  using assms chunkFold_concat[of font "([], [])" w]
  by (auto simp: wrapWords_def wordStep_def Let_def split: prod.splits)

lemma chunkStep_count: "lineCount st \<le> lineCount (chunkStep font st ch)"
  by (cases st) (auto simp: chunkStep_def lineCount_def Let_def)

lemma chunkFold_count: "lineCount st \<le> lineCount (foldl (chunkStep font) st w)"
proof (induction w arbitrary: st)
  case Nil
  then show ?case by simp
next
  case (Cons c w)
  show ?case using Cons.IH[of "chunkStep font st c"] chunkStep_count[of st font c] by simp
qed

lemma chunkFold_append_count:
  "lineCount (foldl (chunkStep font) st w) \<le> lineCount (foldl (chunkStep font) st (w @ x))"
  using chunkFold_count[of "foldl (chunkStep font) st w" font x] by simp

lemma chunkFold_last_nonempty:
  "w \<noteq> [] \<Longrightarrow> snd (foldl (chunkStep font) st w) \<noteq> []"
proof (induction w arbitrary: st rule: rev_induct)
  case Nil
  then show ?case by simp
next
  case (snoc c w)
  have "snd (chunkStep font s c) \<noteq> []" for s
    by (cases s) (simp add: chunkStep_def Let_def)
  then show ?case by simp
qed

lemma chunkFold_count_pos:
  "w \<noteq> [] \<Longrightarrow> lineCount (lines, []) + 1 \<le> lineCount (foldl (chunkStep font) (lines, []) w)"
proof -
  assume "w \<noteq> []"
  then obtain c w' where w: "w = c # w'" by (cases w) auto
  have "lineCount (chunkStep font (lines, []) c) = length lines + 1"
    by (auto simp: chunkStep_def lineCount_def Let_def)
  then show ?thesis
    using chunkFold_count[of "chunkStep font (lines, []) c" font w'] w
    by (simp add: lineCount_def)
qed

lemma wordStep_fit:
  "font (trialOf current w) fontSize \<le> maxWidth \<Longrightarrow>
   wordStep font (lines, current) w = (lines, trialOf current w)"
  by (simp add: wordStep_def trialOf_def)

lemma wordStep_wide:
  "\<not> font (trialOf current w) fontSize \<le> maxWidth \<Longrightarrow> font w fontSize > maxWidth \<Longrightarrow>
   wordStep font (lines, current) w = foldl (chunkStep font) (pushCurrent lines current, []) w"
  by (simp add: wordStep_def trialOf_def pushCurrent_def)

lemma wordStep_narrow:
  "\<not> font (trialOf current w) fontSize \<le> maxWidth \<Longrightarrow> \<not> font w fontSize > maxWidth \<Longrightarrow>
   wordStep font (lines, current) w = (pushCurrent lines current, w)"
  by (simp add: wordStep_def trialOf_def pushCurrent_def)

lemma lineCount_push: "lineCount (pushCurrent lines current, []) = lineCount (lines, current)"
  by (simp add: lineCount_def pushCurrent_def)

lemma lineCount_pair: "lineCount (lines, c) = length lines + (if c \<noteq> [] then 1 else 0)"
  by (simp add: lineCount_def)

lemma wordStep_count: "lineCount st \<le> lineCount (wordStep font st w)"
proof (cases st)
  case (Pair lines current)
  consider (fit) "font (trialOf current w) fontSize \<le> maxWidth"
    | (wide) "\<not> font (trialOf current w) fontSize \<le> maxWidth" "font w fontSize > maxWidth"
    | (narrow) "\<not> font (trialOf current w) fontSize \<le> maxWidth" "\<not> font w fontSize > maxWidth"
    by blast
  then show ?thesis
  proof cases
    case fit
    then show ?thesis unfolding Pair wordStep_fit[where font=font, OF fit]
      by (simp add: lineCount_pair trialOf_def)
  next
    case wide
    have "lineCount (pushCurrent lines current, []) \<le>
          lineCount (foldl (chunkStep font) (pushCurrent lines current, []) w)"
      by (rule chunkFold_count)
    then show ?thesis unfolding Pair wordStep_wide[where font=font, OF wide]
      by (simp add: lineCount_push)
  next
    case narrow
    show ?thesis unfolding Pair wordStep_narrow[where font=font, OF narrow]
      by (simp add: lineCount_pair pushCurrent_def)
  qed
qed

lemma wordFold_count: "lineCount st \<le> lineCount (foldl (wordStep font) st ws)"
proof (induction ws arbitrary: st)
  case Nil
  then show ?case by simp
next
  case (Cons w ws)
  show ?case using Cons.IH[of "wordStep font st w"] wordStep_count[of st font w] by simp
qed

lemma wordStep_extend_count:
  assumes mono: "\<forall>s x. font s fontSize \<le> font (s @ x) fontSize"
  shows "lineCount (wordStep font st w) \<le> lineCount (wordStep font st (w @ x))"
proof (cases "x = []")
  case True
  then show ?thesis by simp
next
  case xne: False
  obtain lines current where st: "st = (lines, current)" by (cases st)
  have tr: "trialOf current (w @ x) = trialOf current w @ x"
    by (simp add: trialOf_def)
  have m1: "font (trialOf current w) fontSize \<le> font (trialOf current (w @ x)) fontSize"
    unfolding tr using mono by blast
  have m2: "font w fontSize \<le> font (w @ x) fontSize"
    using mono by blast
  have c1: "lineCount (foldl (chunkStep font) (pushCurrent lines current, []) w)
            \<le> lineCount (foldl (chunkStep font) (pushCurrent lines current, []) (w @ x))"
    by (rule chunkFold_append_count)
  have c2: "lineCount (lines, current) + 1
            \<le> lineCount (foldl (chunkStep font) (pushCurrent lines current, []) (w @ x))"
    using chunkFold_count_pos[of "w @ x" "pushCurrent lines current" font] xne
    by (simp add: lineCount_push)
  have old: "lineCount (wordStep font (lines, current) w) \<le> lineCount (lines, current) + 1"
    if "font (trialOf current w) fontSize \<le> maxWidth \<or> \<not> font w fontSize > maxWidth"
  proof (cases "font (trialOf current w) fontSize \<le> maxWidth")
    case True
    show ?thesis unfolding wordStep_fit[where font=font, OF True] by (simp add: lineCount_pair)
  next
    case False
    then have narrow: "\<not> font w fontSize > maxWidth" using that by blast
    show ?thesis unfolding wordStep_narrow[where font=font, OF False narrow]
      by (simp add: lineCount_pair pushCurrent_def)
  qed
  show ?thesis
  proof (cases "font (trialOf current (w @ x)) fontSize \<le> maxWidth")
    case fit': True
    then have fit: "font (trialOf current w) fontSize \<le> maxWidth" using m1 by linarith
    show ?thesis
      unfolding st wordStep_fit[where font=font, OF fit'] wordStep_fit[where font=font, OF fit]
      by (simp add: lineCount_pair tr)
  next
    case nofit': False
    show ?thesis
    proof (cases "font (w @ x) fontSize > maxWidth")
      case wide': True
      show ?thesis
      proof (cases "font (trialOf current w) fontSize \<le> maxWidth \<or> \<not> font w fontSize > maxWidth")
        case True
        show ?thesis
          unfolding st wordStep_wide[where font=font, OF nofit' wide']
          using old[OF True] c2 by linarith
      next
        case False
        then have nofit: "\<not> font (trialOf current w) fontSize \<le> maxWidth"
          and wide: "font w fontSize > maxWidth" by auto
        show ?thesis
          unfolding st wordStep_wide[where font=font, OF nofit' wide']
            wordStep_wide[where font=font, OF nofit wide]
          by (rule c1)
      qed
    next
      case narrow': False
      then have narrow: "\<not> font w fontSize > maxWidth" using m2 by linarith
      have "lineCount (pushCurrent lines current, w @ x) = lineCount (lines, current) + 1"
        using xne by (simp add: lineCount_pair pushCurrent_def)
      then show ?thesis
        unfolding st wordStep_narrow[where font=font, OF nofit' narrow']
        using old narrow by simp
    qed
  qed
qed

lemma splitWords_head: "\<exists>x rest. splitWords cur e = (cur @ x) # rest"
proof (induction e arbitrary: cur)
  case Nil
  then show ?case by simp
next
  case (Cons c e)
  show ?case
  proof (cases "isWhiteSpace c")
    case True
    then show ?thesis by simp
  next
    case False
    obtain x rest where "splitWords (cur @ [c]) e = ((cur @ [c]) @ x) # rest"
      using Cons[of "cur @ [c]"] by blast
    then show ?thesis using False by simp
  qed
qed

lemma skipSpaces_nonempty: "\<exists>x rest. skipSpaces e = x # rest"
proof (induction e)
  case Nil
  then show ?case by simp
next
  case (Cons c e)
  show ?case
  proof (cases "isWhiteSpace c")
    case True
    then show ?thesis using Cons by simp
  next
    case False
    then show ?thesis using splitWords_head[of "[c]" e] by auto
  qed
qed

lemma splitWords_extend:
  "\<exists>ws w x rest. splitWords cur t = ws @ [w] \<and> splitWords cur (t @ e) = ws @ (w @ x) # rest"
  and skipSpaces_extend: "\<exists>ws w x rest. skipSpaces t = ws @ [w] \<and> skipSpaces (t @ e) = ws @ (w @ x) # rest"
proof (induction cur t and t rule: splitWords_skipSpaces.induct)
  case (1 cur)
  obtain x rest where "splitWords cur e = (cur @ x) # rest"
    using splitWords_head by blast
  then have "splitWords cur [] = [] @ [cur] \<and> splitWords cur ([] @ e) = [] @ (cur @ x) # rest"
    by simp
  then show ?case by blast
next
  case (2 cur c cs)
  show ?case
  proof (cases "isWhiteSpace c")
    case True
    obtain ws w x rest where "skipSpaces cs = ws @ [w]" "skipSpaces (cs @ e) = ws @ (w @ x) # rest"
      using 2(1)[OF True] by blast
    then have "splitWords cur (c # cs) = (cur # ws) @ [w] \<and>
               splitWords cur ((c # cs) @ e) = (cur # ws) @ (w @ x) # rest"
      using True by simp
    then show ?thesis by blast
  next
    case False
    then show ?thesis using 2(2)[OF False] by simp
  qed
next
  case 3
  obtain x rest where "skipSpaces e = x # rest" using skipSpaces_nonempty by blast
  then have "skipSpaces [] = [] @ [[]] \<and> skipSpaces ([] @ e) = [] @ ([] @ x) # rest" by simp
  then show ?case by blast
next
  case (4 c cs)
  show ?case
  proof (cases "isWhiteSpace c")
    case True
    then show ?thesis using 4(1)[OF True] by simp
  next
    case False
    then show ?thesis using 4(2)[OF False] by simp
  qed
qed

lemma ws13: "isWhiteSpace 13" and ws10: "isWhiteSpace 10"
  by (simp_all add: isWhiteSpace_def)

lemma split_replaceCRLF:
  "(\<forall>cur. splitWords cur (replaceCRLF s) = splitWords cur s) \<and> skipSpaces (replaceCRLF s) = skipSpaces s"
proof (induction s rule: replaceCRLF.induct)
  case 1
  then show ?case by simp
next
  case (2 c)
  then show ?case by simp
next
  case (3 c d cs)
  show ?case
  proof (cases "c = 13 \<and> d = 10")
    case True
    then show ?thesis using 3(1)[OF True] by (simp add: ws13 ws10)
  next
    case False
    then show ?thesis using 3(2)[OF False] by auto
  qed
qed

lemma splitWhitespace_replaceCRLF: "splitWhitespace (replaceCRLF s) = splitWhitespace s"
  using split_replaceCRLF[of s] by (simp add: splitWhitespace_def)

lemma length_wrapWords: "length (wrapWords font ws) = lineCount (foldl (wordStep font) ([], []) ws)"
  by (cases "foldl (wordStep font) ([], []) ws") (simp add: wrapWords_def lineCount_def)

lemma layoutLines_extend:
  assumes mono: "\<forall>s x. font s fontSize \<le> font (s @ x) fontSize"
  shows "length (layoutLines font text) \<le> length (layoutLines font (text @ extra))"
proof -
  obtain ws w x rest where a: "splitWhitespace text = ws @ [w]"
    and b: "splitWhitespace (text @ extra) = ws @ (w @ x) # rest"
    using splitWords_extend[of "[]" "text" extra] unfolding splitWhitespace_def by blast
  let ?s = "foldl (wordStep font) ([], []) ws"
  have "lineCount (wordStep font ?s w) \<le> lineCount (wordStep font ?s (w @ x))"
    using mono by (rule wordStep_extend_count)
  also have "\<dots> \<le> lineCount (foldl (wordStep font) (wordStep font ?s (w @ x)) rest)"
    by (rule wordFold_count)
  finally show ?thesis
    by (simp add: layoutLines_def splitWhitespace_replaceCRLF a b length_wrapWords)
qed

lemma placeLine_pageState:
  "pageState s1 = pageState s2 \<Longrightarrow> pageState (placeLine s1 l1) = pageState (placeLine s2 l2)"
  by (cases s1; cases s2) (auto simp: pageState_def placeLine_def Let_def)

lemma placeLine_pages_mono: "fst (pageState st) \<le> fst (pageState (placeLine st l))"
  by (cases st) (auto simp: pageState_def placeLine_def Let_def)

lemma foldl_placeLine_pages_mono: "fst (pageState st) \<le> fst (pageState (foldl placeLine st ls))"
proof (induction ls arbitrary: st)
  case Nil
  then show ?case by simp
next
  case (Cons l ls)
  show ?case using Cons[of "placeLine st l"] placeLine_pages_mono[of st l] by simp
qed

lemma foldl_placeLine_pageState:
  "length l1 = length l2 \<Longrightarrow> pageState s1 = pageState s2 \<Longrightarrow>
   pageState (foldl placeLine s1 l1) = pageState (foldl placeLine s2 l2)"
proof (induction l1 l2 arbitrary: s1 s2 rule: list_induct2)
  case Nil
  then show ?case by simp
next
  case (Cons x xs y ys)
  show ?case using Cons.IH[OF placeLine_pageState[OF Cons.prems, of x y]] by simp
qed

lemma length_paginate: "length (paginate ls) = Suc (fst (pageState (foldl placeLine ([], [], snd pageSize - margin) ls)))"
  by (simp add: paginate_def pageState_def split: prod.splits)

lemma paginate_mono:
  assumes "length l1 \<le> length l2"
  shows "length (paginate l1) \<le> length (paginate l2)"
proof -
  let ?s0 = "([], [], snd pageSize - margin) :: page list \<times> page \<times> real"
  let ?a = "take (length l1) l2"
  have len: "length l1 = length ?a" using assms by simp
  have "pageState (foldl placeLine ?s0 l1) = pageState (foldl placeLine ?s0 ?a)"
    using len by (rule foldl_placeLine_pageState) simp
  moreover have "fst (pageState (foldl placeLine ?s0 ?a))
      \<le> fst (pageState (foldl placeLine (foldl placeLine ?s0 ?a) (drop (length l1) l2)))"
    by (rule foldl_placeLine_pages_mono)
  moreover have "foldl placeLine (foldl placeLine ?s0 ?a) (drop (length l1) l2) = foldl placeLine ?s0 l2"
    by (simp flip: foldl_append)
  ultimately show ?thesis by (simp add: length_paginate)
qed

lemma length_drawFooter: "length (drawFooter font fn ps) = length ps"
  by (cases ps) (simp_all add: drawFooter_def Let_def)

text \<open>A page takes 44 lines: the 45th line opens the second page.\<close>

lemma placeLine_stay:
  "\<not> y < margin + lineHeight \<Longrightarrow> pageState (placeLine (earlier, page, y) l) = (length earlier, y - lineHeight)"
  by (simp add: placeLine_def pageState_def)

lemma placeLine_break:
  "y < margin + lineHeight \<Longrightarrow>
   pageState (placeLine (earlier, page, y) l) = (Suc (length earlier), snd pageSize - margin - lineHeight)"
  by (simp add: placeLine_def pageState_def)

lemma pageState_after:
  "n \<le> 44 \<Longrightarrow> pageState (foldl placeLine ([], [], snd pageSize - margin) (replicate n l)) = (0, 742 - real n * 15.6)"
proof (induction n)
  case 0
  then show ?case by (simp add: pageState_def pageSize_def margin_def)
next
  case (Suc n)
  obtain earlier page y where st: "foldl placeLine ([], [], snd pageSize - margin) (replicate n l) = (earlier, page, y)"
    by (cases "foldl placeLine ([], [], snd pageSize - margin) (replicate n l)") auto
  have "pageState (earlier, page, y) = (0, 742 - real n * 15.6)"
    using Suc st by simp
  then have e: "length earlier = 0" and y: "y = 742 - real n * 15.6"
    by (simp_all add: pageState_def)
  have "real n \<le> 43" using Suc.prems by simp
  then have "\<not> y < margin + lineHeight"
    by (simp add: y margin_def lineHeight_def fontSize_def)
  then have "pageState (placeLine (earlier, page, y) l) = (length earlier, y - lineHeight)"
    by (rule placeLine_stay)
  moreover have "y - lineHeight = 742 - real (Suc n) * 15.6"
    by (simp add: y lineHeight_def fontSize_def field_simps)
  ultimately have step: "pageState (placeLine (earlier, page, y) l) = (0, 742 - real (Suc n) * 15.6)"
    by (simp only: e)
  have "replicate (Suc n) l = replicate n l @ [l]"
    by (simp add: replicate_append_same)
  then have "foldl placeLine ([], [], snd pageSize - margin) (replicate (Suc n) l) =
        placeLine (foldl placeLine ([], [], snd pageSize - margin) (replicate n l)) l"
    by (simp only: foldl_append foldl_Cons foldl_Nil)
  then show ?case by (simp only: st step)
qed

lemma page_capacity:
  "length (paginate (replicate 44 l)) = 1 \<and> length (paginate (replicate 45 l)) = 2"
proof -
  let ?s0 = "([], [], snd pageSize - margin) :: page list \<times> page \<times> real"
  have a: "pageState (foldl placeLine ?s0 (replicate 44 l)) = (0, 742 - real 44 * 15.6)"
    by (rule pageState_after) simp
  obtain earlier page y where st: "foldl placeLine ?s0 (replicate 44 l) = (earlier, page, y)"
    by (cases "foldl placeLine ?s0 (replicate 44 l)") auto
  have e: "length earlier = 0" and y: "y = 742 - real 44 * 15.6"
    using a by (simp_all add: st pageState_def)
  have "y < margin + lineHeight"
    by (simp add: y margin_def lineHeight_def fontSize_def)
  then have b: "pageState (placeLine (earlier, page, y) l) = (Suc (length earlier), snd pageSize - margin - lineHeight)"
    by (rule placeLine_break)
  have "replicate 45 l = replicate 44 l @ [l]"
    by (simp add: replicate_append_same flip: replicate_Suc)
  then have "foldl placeLine ?s0 (replicate 45 l) = placeLine (earlier, page, y) l"
    by (simp only: foldl_append foldl_Cons foldl_Nil st)
  then have c: "fst (pageState (foldl placeLine ?s0 (replicate 45 l))) = 1"
    using b e by simp
  have d: "fst (pageState (foldl placeLine ?s0 (replicate 44 l))) = 0"
    using a by simp
  show ?thesis
    by (simp add: length_paginate c d)
qed

text \<open>
  C1.  Whatever bytes the text adapter is given, every line it lays out is at most the
  usable width wide (612 less two margins of 50) at size 12 in the embedded font,
  provided each single character is: the library's Times Roman has no glyph wider than
  the font size.  In particular a word wider than the usable width is cut character by
  character into fragments that make up the word and are each at most that wide.
\<close>

theorem text_lines_fit:
  assumes "\<forall>ch. embedFont e [ch] fontSize \<le> maxWidth"
  shows "(\<forall>l \<in> set (bodyLines (txtPages e content filename)). embedFont e l fontSize \<le> maxWidth) \<and>
         (embedFont e w fontSize > maxWidth \<longrightarrow>
            concat (wrapWords (embedFont e) [w]) = w \<and>
            (\<forall>l \<in> set (wrapWords (embedFont e) [w]). embedFont e l fontSize \<le> maxWidth))"
  using wrapWords_fits[of "embedFont e"] assms wrap_single_wide[of "embedFont e" w]
  by (simp add: txtPages_def bodyLines_txtDocument layoutLines_def)

theorem text_lines_fit_witness:
  "list_all (\<lambda>l. embedFont exampleEnv l fontSize \<le> maxWidth)
     (bodyLines (txtPages exampleEnv (replicate 100 97) (js ''notes.txt''))) \<and>
   maxWidth < embedFont exampleEnv (replicate 100 97) fontSize \<and>
   concat (wrapWords (embedFont exampleEnv) [replicate 100 97]) = replicate 100 97 \<and>
   list_all (\<lambda>l. embedFont exampleEnv l fontSize \<le> maxWidth)
     (wrapWords (embedFont exampleEnv) [replicate 100 97])"
proof -
  have narrow: "\<forall>ch. embedFont exampleEnv [ch] fontSize \<le> maxWidth"
    by (simp add: exampleEnv_def halfEm_def fontSize_def maxWidth_def pageSize_def margin_def)
  have wide: "maxWidth < embedFont exampleEnv (replicate 100 97) fontSize"
    by (simp add: exampleEnv_def halfEm_def fontSize_def maxWidth_def pageSize_def margin_def)
  show ?thesis
    using text_lines_fit[OF narrow, of "replicate 100 97" "js ''notes.txt''" "replicate 100 97"] wide
    by (simp only: list_all_iff) blast
qed

text \<open>
  C7.  An input extended with more text never gives fewer pages: when the decoded text
  of one input is the decoded text of another followed by more characters, the document
  built for it has at least as many pages, provided that appending characters never
  makes a string narrower in the embedded font (as in Times Roman, where each glyph is
  wider than any kerning before it).
\<close>

theorem text_pages_monotone:
  assumes "\<forall>s x. embedFont e s fontSize \<le> embedFont e (s @ x) fontSize"
    and "textDecode e extended = textDecode e content @ extra"
  shows "length (txtPages e content filename) \<le> length (txtPages e extended filename)"
  using paginate_mono[OF layoutLines_extend[where font="embedFont e", OF assms(1)]] assms(2)
  by (simp add: txtPages_def txtDocument_def length_drawFooter)

theorem text_pages_monotone_witness:
  "length (txtPages exampleEnv [97, 98] (js ''notes.txt''))
     \<le> length (txtPages exampleEnv [97, 98, 32, 99, 100] (js ''notes.txt''))"
proof -
  have grows: "\<forall>s x. embedFont exampleEnv s fontSize \<le> embedFont exampleEnv (s @ x) fontSize"
    by (simp add: exampleEnv_def halfEm_def fontSize_def)
  have longer: "textDecode exampleEnv [97, 98, 32, 99, 100] = textDecode exampleEnv [97, 98] @ [32, 99, 100]"
    by (simp add: exampleEnv_def)
  show ?thesis
    by (rule text_pages_monotone[OF grows longer])
qed

section \<open>Proofs about the routes\<close>

lemma andThen_ret: "andThen (ret x) f = f x"
  by (rule ext) (simp add: andThen_def ret_def)

lemma andThen_throw: "andThen (throw err) f = throw err"
  by (rule ext) (simp add: andThen_def throw_def)

lemma andThen_Inr: "m w = (Inr x, w1) \<Longrightarrow> andThen m f w = f x w1"
  by (simp add: andThen_def)

lemma andThen_Inl: "m w = (Inl err, w1) \<Longrightarrow> andThen m f w = (Inl err, w1)"
  by (simp add: andThen_def)

lemma readFormFile_file:
  "reqFormData req = Inr form \<Longrightarrow> formGet form key = Some (FFile f) \<Longrightarrow>
   readFormFile req key = ret f"
  by (simp add: readFormFile_def formDataOf_def andThen_ret)

lemma enforceFileLimit_over:
  "length (upContent f) > MAX_FILE_BYTES \<Longrightarrow>
   enforceFileLimit f = throw (HTTPException 413 (js ''File too large. Max size is 50MB.''))"
  by (simp add: enforceFileLimit_def)

lemma respond_throw: "respond (throw err) w = (onError err, w)"
  by (simp add: respond_def throw_def)

lemma onError_http: "onError (HTTPException s m) = Json s m"
  by (simp add: onError_def)

lemma oversized_hyp: "length (upContent oversizedUpload) > MAX_FILE_BYTES"
  by (simp add: oversizedUpload_def MAX_FILE_BYTES_def)

lemma formGet_hyp: "formGet [(js ''file'', FFile oversizedUpload)] (js ''file'') = Some (FFile oversizedUpload)"
  by (simp add: formGet_def)

lemma oversized_html_field_rejected:
  assumes "reqFormData req = Inr form"
    and "\<forall>f. formGet form (js ''file'') \<noteq> Some (FFile f)"
    and "formGet form (js ''html'') = Some (FString s)"
    and "length (textEncode e s) > MAX_FILE_BYTES"
  shows "respond (convertHtml e req) w = (Json 413 (js ''HTML content too large. Max size is 50MB.''), w)"
proof -
  have lim: "enforceStringLimit e (js ''HTML content'') s =
      throw (HTTPException 413 (js ''HTML content'' @ js '' too large. Max size is 50MB.''))"
    using assms(4) by (simp add: enforceStringLimit_def)
  have cat: "js ''HTML content'' @ js '' too large. Max size is 50MB.'' = js ''HTML content too large. Max size is 50MB.''"
    by (simp add: js_def)
  consider "formGet form (js ''file'') = None" | t where "formGet form (js ''file'') = Some (FString t)"
    using assms(2) by (cases "formGet form (js ''file'')") (auto intro: formvalue.exhaust)
  then have "htmlInput e req = throw (HTTPException 413 (js ''HTML content too large. Max size is 50MB.''))"
  proof cases
    case 1
    then show ?thesis
      by (simp add: htmlInput_def formDataOf_def assms(1,3) lim cat andThen_ret andThen_throw)
  next
    case 2
    then show ?thesis
      by (simp add: htmlInput_def formDataOf_def assms(1,3) lim cat andThen_ret andThen_throw)
  qed
  then show ?thesis
    by (simp add: convertHtml_def andThen_throw respond_throw onError_http)
qed

lemma map_of_filter_other:
  "k \<noteq> h \<Longrightarrow> map_of (filter (\<lambda>(k', v). k' \<noteq> h) form) k = map_of form k"
  by (induction form) auto

lemma firstFailure_none: "firstFailure (\<lambda>s. None) xs = None"
  by (induction xs) simp_all

lemma txtToPdf_encodable:
  assumes "firstFailure (encodeFailure e)
             (encodedStrings (embedFont e) (textDecode e c) name) = None"
  shows "\<exists>path w1. txtToPdf_toPath e c name w = (Inr path, w1) \<and>
           files w1 path = Some (pdfSave e (txtPages e c name)) \<and>
           calls w1 = calls w @ [CallTxtToPdf c name]"
  by (simp add: txtToPdf_toPath_def andThen_def ret_def throw_def freshStamp_def writeFile_def logCall_def Let_def assms)

lemma txtToPdf_unencodable:
  assumes "firstFailure (encodeFailure e)
             (encodedStrings (embedFont e) (textDecode e c) name) = Some message"
  shows "txtToPdf_toPath e c name w =
           (Inl (Error message), w\<lparr>calls := calls w @ [CallTxtToPdf c name]\<rparr>)"
  by (simp add: txtToPdf_toPath_def andThen_def ret_def throw_def freshStamp_def writeFile_def logCall_def assms)

lemma example_encodes: "firstFailure (encodeFailure exampleEnv) xs = None"
  by (simp add: exampleEnv_def firstFailure_none)


text \<open>
  C10.  When the form of a request to \<open>/api/convert/html\<close> has a file in its field
  \<open>file\<close>, the field \<open>html\<close> is not used: two requests whose forms agree on every field
  other than \<open>html\<close> choose the same HTML to convert and run the same route.
\<close>

theorem html_file_takes_precedence:
  assumes "reqFormData r1 = Inr form1" and "reqFormData r2 = Inr form2"
    and "filter (\<lambda>(k, v). k \<noteq> js ''html'') form1 = filter (\<lambda>(k, v). k \<noteq> js ''html'') form2"
    and "formGet form1 (js ''file'') = Some (FFile f)"
  shows "htmlInput e r1 = htmlInput e r2 \<and> convertHtml e r1 = convertHtml e r2"
proof -
  have ne: "js ''file'' \<noteq> js ''html''" by (simp add: js_def)
  have "formGet form2 (js ''file'') = formGet form1 (js ''file'')"
    unfolding formGet_def
    using map_of_filter_other[OF ne, of form1] map_of_filter_other[OF ne, of form2] assms(3)
    by simp
  then have f2: "formGet form2 (js ''file'') = Some (FFile f)" using assms(4) by simp
  have "htmlInput e r1 = htmlInput e r2"
    by (simp add: htmlInput_def formDataOf_def assms(1,2,4) f2 andThen_ret)
  then show ?thesis by (simp add: convertHtml_def)
qed

theorem html_file_takes_precedence_witness:
  "htmlInput exampleEnv
     (formRequest [(js ''html'', FString (js ''<p>one</p>'')),
                   (js ''file'', FFile \<lparr>upName = js ''page.html'', upContent = [60, 98, 62]\<rparr>)])
   = htmlInput exampleEnv
     (formRequest [(js ''html'', FString (js ''<p>two</p>'')),
                   (js ''file'', FFile \<lparr>upName = js ''page.html'', upContent = [60, 98, 62]\<rparr>)])
   \<and>
   convertHtml exampleEnv
     (formRequest [(js ''html'', FString (js ''<p>one</p>'')),
                   (js ''file'', FFile \<lparr>upName = js ''page.html'', upContent = [60, 98, 62]\<rparr>)])
   = convertHtml exampleEnv
     (formRequest [(js ''html'', FString (js ''<p>two</p>'')),
                   (js ''file'', FFile \<lparr>upName = js ''page.html'', upContent = [60, 98, 62]\<rparr>)])"
proof -
  let ?f = "\<lparr>upName = js ''page.html'', upContent = [60, 98, 62]\<rparr>"
  let ?form1 = "[(js ''html'', FString (js ''<p>one</p>'')), (js ''file'', FFile ?f)]"
  let ?form2 = "[(js ''html'', FString (js ''<p>two</p>'')), (js ''file'', FFile ?f)]"
  have a: "reqFormData (formRequest ?form1) = Inr ?form1"
    and b: "reqFormData (formRequest ?form2) = Inr ?form2"
    by (simp_all add: formRequest_def)
  have c: "filter (\<lambda>(k, v). k \<noteq> js ''html'') ?form1 = filter (\<lambda>(k, v). k \<noteq> js ''html'') ?form2"
    by (simp add: js_def)
  have d: "formGet ?form1 (js ''file'') = Some (FFile ?f)"
    by (simp add: formGet_def js_def)
  show ?thesis
    by (rule html_file_takes_precedence[OF a b c d])
qed

section \<open>Proofs about the download and the URL route\<close>

lemma getUrlFromRequest_world: "snd (getUrlFromRequest req w) = w"
  by (auto simp: getUrlFromRequest_def Let_def ret_def throw_def andThen_def formDataOf_def
      split: option.splits sum.splits formvalue.splits)

lemma resolveBaseName_world: "snd (resolveBaseName e urlStr cd w) = w"
  by (auto simp: resolveBaseName_def Let_def ret_def throw_def split: option.splits)

lemma resolveFilename_world: "snd (resolveFilename e urlStr res w) = w"
proof -
  obtain r where r: "resolveBaseName e urlStr (fContentDisposition res) w = (r, w)"
    using resolveBaseName_world[of e urlStr "fContentDisposition res" w]
    by (cases "resolveBaseName e urlStr (fContentDisposition res) w") simp
  show ?thesis
    by (cases r) (auto simp: resolveFilename_def Let_def andThen_def r ret_def throw_def split: option.splits)
qed

lemma totalBytes_Cons: "totalBytes (c # cs) = length c + totalBytes cs"
  by (simp add: totalBytes_def)

lemma totalBytes_Nil: "totalBytes [] = 0"
  by (simp add: totalBytes_def)

lemma readLoop_step:
  "files w p = Some written \<Longrightarrow> \<not> received + length c > maxBytes \<Longrightarrow>
   readLoop p maxBytes received (c # cs) w =
     readLoop p maxBytes (received + length c) cs (w\<lparr>files := (files w)(p \<mapsto> written @ c)\<rparr>)"
  by (simp add: andThen_def Let_def appendFile_def)

lemma readLoop_complete:
  "received + totalBytes chunks \<le> maxBytes \<Longrightarrow> files w p = Some written \<Longrightarrow>
   readLoop p maxBytes received chunks w =
     (Inr (), w\<lparr>files := (files w)(p \<mapsto> written @ concat chunks)\<rparr>)"
proof (induction chunks arbitrary: received w written)
  case Nil
  then have "(files w)(p \<mapsto> written) = files w" by (simp add: map_upd_triv)
  then show ?case by (simp add: ret_def)
next
  case (Cons c cs)
  let ?w1 = "w\<lparr>files := (files w)(p \<mapsto> written @ c)\<rparr>"
  have bound: "(received + length c) + totalBytes cs \<le> maxBytes"
    using Cons.prems(1) by (simp add: totalBytes_Cons)
  have here: "\<not> received + length c > maxBytes" using bound by simp
  have same: "?w1\<lparr>files := (files ?w1)(p \<mapsto> (written @ c) @ concat cs)\<rparr> =
              w\<lparr>files := (files w)(p \<mapsto> written @ concat (c # cs))\<rparr>"
    by simp
  have "readLoop p maxBytes (received + length c) cs ?w1 =
      (Inr (), ?w1\<lparr>files := (files ?w1)(p \<mapsto> (written @ c) @ concat cs)\<rparr>)"
    by (rule Cons.IH[OF bound]) simp
  then show ?case
    unfolding readLoop_step[OF Cons.prems(2) here] same .
qed

lemma readLoop_exceeds:
  "k < length chunks \<Longrightarrow> received + totalBytes (take k chunks) \<le> maxBytes \<Longrightarrow>
   maxBytes < received + totalBytes (take (Suc k) chunks) \<Longrightarrow> files w p = Some written \<Longrightarrow>
   readLoop p maxBytes received chunks w =
     (Inl (HTTPException 413 (js ''Remote file exceeds 50MB limit.'')),
      w\<lparr>files := (files w)(p \<mapsto> written @ concat (take k chunks))\<rparr>)"
proof (induction chunks arbitrary: k received w written)
  case Nil
  then show ?case by simp
next
  case (Cons c cs)
  show ?case
  proof (cases k)
    case 0
    have "(files w)(p \<mapsto> written) = files w" using Cons.prems(4) by (simp add: map_upd_triv)
    then show ?thesis using Cons.prems 0
      by (simp add: totalBytes_Cons totalBytes_Nil throw_def)
  next
    case (Suc j)
    let ?w1 = "w\<lparr>files := (files w)(p \<mapsto> written @ c)\<rparr>"
    have here: "\<not> received + length c > maxBytes"
      using Cons.prems(2) Suc by (simp add: totalBytes_Cons)
    have same: "?w1\<lparr>files := (files ?w1)(p \<mapsto> (written @ c) @ concat (take j cs))\<rparr> =
                w\<lparr>files := (files w)(p \<mapsto> written @ concat (take k (c # cs)))\<rparr>"
      using Suc by simp
    have "readLoop p maxBytes (received + length c) cs ?w1 =
      (Inl (HTTPException 413 (js ''Remote file exceeds 50MB limit.'')),
       ?w1\<lparr>files := (files ?w1)(p \<mapsto> (written @ c) @ concat (take j cs))\<rparr>)"
      using Cons.prems Suc by (intro Cons.IH) (simp_all add: totalBytes_Cons)
    then show ?thesis
      unfolding readLoop_step[OF Cons.prems(4) here] same .
  qed
qed

lemma download_to_loop:
  assumes "fetch e urlStr = Inr res" and "fOk res" and "fBody res = Some chunks"
    and "fst (resolveFilename e urlStr res w) = Inr filename"
  shows "downloadUrlToTemp e urlStr maxBytes w =
     andThen (readLoop (tempFor e w filename) maxBytes 0 chunks)
       (\<lambda>_. ret (tempFor e w filename, filename, fContentType res))
       (w\<lparr>ticks := Suc (ticks w), files := (files w)(tempFor e w filename \<mapsto> [])\<rparr>)"
proof -
  have rf: "resolveFilename e urlStr res w = (Inr filename, w)"
    using assms(4) resolveFilename_world[of e urlStr res w]
    by (cases "resolveFilename e urlStr res w") simp
  show ?thesis
    by (simp add: downloadUrlToTemp_def assms(1,2,3) andThen_def rf freshStamp_def openWriter_def
        tempFor_def Let_def)
qed

lemma download_complete:
  assumes "fetch e urlStr = Inr res" and "fOk res" and "fBody res = Some chunks"
    and "fst (resolveFilename e urlStr res w) = Inr filename"
    and "totalBytes chunks \<le> maxBytes"
  shows "downloadUrlToTemp e urlStr maxBytes w =
     (Inr (tempFor e w filename, filename, fContentType res),
      w\<lparr>ticks := Suc (ticks w), files := (files w)(tempFor e w filename \<mapsto> concat chunks)\<rparr>)"
proof -
  let ?w1 = "w\<lparr>ticks := Suc (ticks w), files := (files w)(tempFor e w filename \<mapsto> [])\<rparr>"
  have "readLoop (tempFor e w filename) maxBytes 0 chunks ?w1 =
      (Inr (), ?w1\<lparr>files := (files ?w1)(tempFor e w filename \<mapsto> [] @ concat chunks)\<rparr>)"
    using assms(5) by (intro readLoop_complete) simp_all
  then show ?thesis
    unfolding download_to_loop[OF assms(1-4)]
    by (simp add: andThen_def ret_def)
qed

lemma download_exceeds:
  assumes "fetch e urlStr = Inr res" and "fOk res" and "fBody res = Some chunks"
    and "fst (resolveFilename e urlStr res w) = Inr filename"
    and "k < length chunks" and "totalBytes (take k chunks) \<le> maxBytes"
    and "maxBytes < totalBytes (take (Suc k) chunks)"
  shows "downloadUrlToTemp e urlStr maxBytes w =
     (Inl (HTTPException 413 (js ''Remote file exceeds 50MB limit.'')),
      w\<lparr>ticks := Suc (ticks w),
        files := (files w)(tempFor e w filename \<mapsto> concat (take k chunks))\<rparr>)"
proof -
  let ?w1 = "w\<lparr>ticks := Suc (ticks w), files := (files w)(tempFor e w filename \<mapsto> [])\<rparr>"
  have "readLoop (tempFor e w filename) maxBytes 0 chunks ?w1 =
      (Inl (HTTPException 413 (js ''Remote file exceeds 50MB limit.'')),
       ?w1\<lparr>files := (files ?w1)(tempFor e w filename \<mapsto> [] @ concat (take k chunks))\<rparr>)"
    using assms(5,6,7) by (intro readLoop_exceeds) simp_all
  then show ?thesis
    unfolding download_to_loop[OF assms(1-4)]
    by (simp add: andThen_def)
qed

lemma convertUrl_download:
  assumes "fst (getUrlFromRequest req w) = Inr urlStr" and "isHttpUrl urlStr"
  shows "convertUrl e req w =
     andThen (downloadUrlToTemp e urlStr MAX_FILE_BYTES)
       (\<lambda>(tmpPath, filename, contentType). convertDownloaded e tmpPath filename contentType) w"
proof -
  have "getUrlFromRequest req w = (Inr urlStr, w)"
    using assms(1) getUrlFromRequest_world[of req w]
    by (cases "getUrlFromRequest req w") simp
  then show ?thesis
    using assms(2) by (simp add: convertUrl_def andThen_def)
qed

lemma guess_range:
  "guessExtFromContentType ct = None \<or> guessExtFromContentType ct = Some (js ''.pdf'') \<or>
   guessExtFromContentType ct = Some (js ''.docx'') \<or> guessExtFromContentType ct = Some (js ''.txt'') \<or>
   guessExtFromContentType ct = Some (js ''.html'') \<or> guessExtFromContentType ct = Some (js ''.rtf'') \<or>
   guessExtFromContentType ct = Some (js ''.zip'')"
  by (simp add: guessExtFromContentType_def Let_def split: option.splits)

lemma typeIs_iff: "typeIs ct x \<longleftrightarrow> guessExtFromContentType ct = Some x"
  by (auto simp: typeIs_def truthy_def guessExtFromContentType_def split: option.splits)

lemma convertDownloaded_pdf:
  "toLowerCase (extname filename) = js ''.pdf'' \<or> guessExtFromContentType ct = Some (js ''.pdf'') \<Longrightarrow>
   convertDownloaded e tmp filename ct w = (Inr (Stream (files w tmp) filename (js ''application/pdf'')), w)"
  by (auto simp: convertDownloaded_def choosePipeline_def typeIs_iff streamFile_def)

lemma respond_Inr: "h w = (Inr r, w1) \<Longrightarrow> respond h w = (r, w1)"
  by (simp add: respond_def)

lemma respond_Inl: "h w = (Inl err, w1) \<Longrightarrow> respond h w = (onError err, w1)"
  by (simp add: respond_def)

lemma convertUrl_downloaded:
  assumes "fst (getUrlFromRequest req w) = Inr urlStr" and "isHttpUrl urlStr"
    and "fetch e urlStr = Inr res" and "fOk res" and "fBody res = Some chunks"
    and "fst (resolveFilename e urlStr res w) = Inr filename"
    and "totalBytes chunks \<le> MAX_FILE_BYTES"
  shows "convertUrl e req w =
     convertDownloaded e (tempFor e w filename) filename (fContentType res)
       (w\<lparr>ticks := Suc (ticks w), files := (files w)(tempFor e w filename \<mapsto> concat chunks)\<rparr>)"
  unfolding convertUrl_download[OF assms(1,2)]
  by (simp add: andThen_def download_complete[OF assms(3,4,5,6,7)])

lemma convertUrl_unsupported:
  assumes "fst (getUrlFromRequest req w) = Inr urlStr" and "isHttpUrl urlStr"
    and "fetch e urlStr = Inr res" and "fOk res" and "fBody res = Some chunks"
    and "fst (resolveFilename e urlStr res w) = Inr filename"
    and "totalBytes chunks \<le> MAX_FILE_BYTES"
    and "choosePipeline (toLowerCase (extname filename)) (fContentType res) = Unsupported"
  shows "respond (convertUrl e req) w =
     (Json 415 (js ''Unsupported remote type. Allowed: pdf, docx, txt, rtf, html, zip.''),
      w\<lparr>ticks := Suc (ticks w), files := (files w)(tempFor e w filename \<mapsto> concat chunks)\<rparr>)"
  unfolding respond_def convertUrl_downloaded[OF assms(1-7)]
  using assms(8) by (simp add: convertDownloaded_def throw_def onError_def)

lemma convertUrl_exceeds:
  assumes "fst (getUrlFromRequest req w) = Inr urlStr" and "isHttpUrl urlStr"
    and "fetch e urlStr = Inr res" and "fOk res" and "fBody res = Some chunks"
    and "fst (resolveFilename e urlStr res w) = Inr filename"
    and "k < length chunks" and "totalBytes (take k chunks) \<le> MAX_FILE_BYTES"
    and "MAX_FILE_BYTES < totalBytes (take (Suc k) chunks)"
  shows "respond (convertUrl e req) w =
     (Json 413 (js ''Remote file exceeds 50MB limit.''),
      w\<lparr>ticks := Suc (ticks w),
        files := (files w)(tempFor e w filename \<mapsto> concat (take k chunks))\<rparr>)"
  unfolding respond_def convertUrl_download[OF assms(1,2)]
  by (simp add: andThen_def download_exceeds[OF assms(3,4,5,6,7,8,9)] onError_def)

lemma jsonRequest_url: "u \<noteq> [] \<Longrightarrow> fst (getUrlFromRequest (jsonRequest u) w) = Inr u"
  by (simp add: getUrlFromRequest_def jsonRequest_def startsWith_def ret_def)

lemma serving_fetch:
  "fetch (serving ct cd chunks) u =
     Inr \<lparr>fOk = True, fStatus = 200, fContentType = ct, fContentDisposition = cd, fBody = Some chunks\<rparr>"
  by (simp add: serving_def)

lemma serving_temp: "tempFor (serving ct cd chunks) emptyWorld name = js ''/tmp/0-'' @ name"
  by (simp add: tempFor_def serving_def exampleEnv_def emptyWorld_def js_def)

lemmas path_defs = extname_def lastComponent_def stripTrailingSlashes_def basename_def
  toLowerCase_def lowerChar_def endsWith_def

lemmas resolve_defs = resolveFilename_def extFromUrlOrDisposition_def dispositionName_def
  extFromUrl_def resolveBaseName_def serving_def exampleEnv_def examplePathname_def
  isNameChar_def andThen_def ret_def Let_def

lemma resolve_a_txt:
  "fst (resolveFilename (serving ct None chunks) (js ''http://h/a.txt'')
     \<lparr>fOk = True, fStatus = 200, fContentType = ct, fContentDisposition = None, fBody = Some chunks\<rparr> w)
   = Inr (js ''a.txt'')"
  by (simp add: resolve_defs path_defs js_def)

lemma resolve_a_zip:
  "fst (resolveFilename (serving ct None chunks) (js ''http://h/a.zip'')
     \<lparr>fOk = True, fStatus = 200, fContentType = ct, fContentDisposition = None, fBody = Some chunks\<rparr> w)
   = Inr (js ''a.zip'')"
  by (simp add: resolve_defs path_defs js_def)

lemma resolve_big_bin:
  "fst (resolveFilename (serving ct None chunks) (js ''http://h/big.bin'')
     \<lparr>fOk = True, fStatus = 200, fContentType = ct, fContentDisposition = None, fBody = Some chunks\<rparr> w)
   = Inr (js ''big.bin'')"
  by (simp add: resolve_defs path_defs js_def)

lemma resolve_report:
  "fst (resolveFilename (serving (Some (js ''application/pdf'')) None chunks) (js ''http://h/report'')
     \<lparr>fOk = True, fStatus = 200, fContentType = Some (js ''application/pdf''),
      fContentDisposition = None, fBody = Some chunks\<rparr> w)
   = Inr (js ''report.pdf'')"
  by (simp add: resolve_defs path_defs guessExtFromContentType_def trim_def isWhiteSpace_def js_def)

lemma http_a_txt: "isHttpUrl (js ''http://h/a.txt'')"
  and http_a_zip: "isHttpUrl (js ''http://h/a.zip'')"
  and http_big_bin: "isHttpUrl (js ''http://h/big.bin'')"
  and http_report: "isHttpUrl (js ''http://h/report'')"
  by (simp_all add: isHttpUrl_def startsWithCI_def startsWith_def toLowerCase_def lowerChar_def js_def)

lemma guess_pdf: "guessExtFromContentType (Some (js ''application/pdf'')) = Some (js ''.pdf'')"
  by (simp add: guessExtFromContentType_def trim_def toLowerCase_def lowerChar_def isWhiteSpace_def js_def)

lemma guess_zip: "guessExtFromContentType (Some (js ''application/zip'')) = Some (js ''.zip'')"
  by (simp add: guessExtFromContentType_def trim_def toLowerCase_def lowerChar_def isWhiteSpace_def js_def)

lemma ext_a_zip: "toLowerCase (extname (js ''a.zip'')) = js ''.zip''"
  by (simp add: path_defs js_def Let_def)

lemma ext_a_txt: "toLowerCase (extname (js ''a.txt'')) = js ''.txt''"
  by (simp add: path_defs js_def Let_def)

lemma temp_big_bin: "tempFor (serving ct cd chunks) emptyWorld (js ''big.bin'') = js ''/tmp/0-big.bin''"
  by (simp add: tempFor_def serving_def exampleEnv_def emptyWorld_def js_def)

lemma emptyWorld_calls: "calls emptyWorld = []"
  by (simp add: emptyWorld_def)

text \<open>
  C8.  When the download of the URL succeeds and the resolved file name has the
  extension \<open>.pdf\<close>, or the \<open>Content-Type\<close> of the response is that of a PDF, the route
  \<open>/convert/url\<close> streams exactly the bytes the reader yielded, as \<open>application/pdf\<close>,
  and invokes no converter: the world changes by the temporary file and the name drawn
  for it only.
\<close>

theorem pdf_url_passes_through:
  assumes "fst (getUrlFromRequest req w) = Inr urlStr" and "isHttpUrl urlStr"
    and "fetch e urlStr = Inr res" and "fOk res" and "fBody res = Some chunks"
    and "fst (resolveFilename e urlStr res w) = Inr filename"
    and "totalBytes chunks \<le> MAX_FILE_BYTES"
    and "toLowerCase (extname filename) = js ''.pdf'' \<or>
         guessExtFromContentType (fContentType res) = Some (js ''.pdf'')"
  shows "respond (convertUrl e req) w =
     (Stream (Some (concat chunks)) filename (js ''application/pdf''),
      w\<lparr>ticks := Suc (ticks w), files := (files w)(tempFor e w filename \<mapsto> concat chunks)\<rparr>)"
proof -
  let ?tmp = "tempFor e w filename"
  let ?w1 = "w\<lparr>ticks := Suc (ticks w), files := (files w)(?tmp \<mapsto> concat chunks)\<rparr>"
  have "convertUrl e req w = convertDownloaded e ?tmp filename (fContentType res) ?w1"
    by (rule convertUrl_downloaded[OF assms(1-7)])
  also have "\<dots> = (Inr (Stream (files ?w1 ?tmp) filename (js ''application/pdf'')), ?w1)"
    using assms(8) by (rule convertDownloaded_pdf)
  finally show ?thesis
    by (simp add: respond_def)
qed

theorem pdf_url_passes_through_witness:
  "fst (respond (convertUrl (serving (Some (js ''application/pdf'')) None [[37, 80, 68, 70], [45, 49]])
                  (jsonRequest (js ''http://h/report''))) emptyWorld)
     = Stream (Some [37, 80, 68, 70, 45, 49]) (js ''report.pdf'') (js ''application/pdf'') \<and>
   calls (snd (respond (convertUrl (serving (Some (js ''application/pdf'')) None [[37, 80, 68, 70], [45, 49]])
                  (jsonRequest (js ''http://h/report''))) emptyWorld)) = []"
proof -
  have u: "fst (getUrlFromRequest (jsonRequest (js ''http://h/report'')) emptyWorld) = Inr (js ''http://h/report'')"
    by (rule jsonRequest_url) (simp add: js_def)
  have size: "totalBytes [[37, 80, 68, 70], [45, 49 :: 8 word]] \<le> MAX_FILE_BYTES"
    by (simp add: totalBytes_def MAX_FILE_BYTES_def)
  have pdf: "toLowerCase (extname (js ''report.pdf'')) = js ''.pdf'' \<or>
     guessExtFromContentType (fContentType \<lparr>fOk = True, fStatus = 200,
        fContentType = Some (js ''application/pdf''), fContentDisposition = None,
        fBody = Some [[37, 80, 68, 70], [45, 49]]\<rparr>) = Some (js ''.pdf'')"
    by (simp add: guess_pdf)
  show ?thesis
    using pdf_url_passes_through[OF u http_report serving_fetch _ _ resolve_report size pdf]
    by (simp add: emptyWorld_def)
qed

text \<open>
  C3.  A URL whose resource is a ZIP archive is not converted: the block that would
  handle it is commented out in the source, so when the resolved file name has the
  extension \<open>.zip\<close> and the \<open>Content-Type\<close> is that of a ZIP archive the route falls
  through to its last statement and answers 415 with the message that lists \<open>zip\<close> as
  allowed.
\<close>

theorem zip_url_is_rejected:
  assumes "fst (getUrlFromRequest req w) = Inr urlStr" and "isHttpUrl urlStr"
    and "fetch e urlStr = Inr res" and "fOk res" and "fBody res = Some chunks"
    and "fst (resolveFilename e urlStr res w) = Inr filename"
    and "totalBytes chunks \<le> MAX_FILE_BYTES"
    and "toLowerCase (extname filename) = js ''.zip''"
    and "guessExtFromContentType (fContentType res) = Some (js ''.zip'')"
  shows "respond (convertUrl e req) w =
     (Json 415 (js ''Unsupported remote type. Allowed: pdf, docx, txt, rtf, html, zip.''),
      w\<lparr>ticks := Suc (ticks w), files := (files w)(tempFor e w filename \<mapsto> concat chunks)\<rparr>)"
proof -
  have "choosePipeline (toLowerCase (extname filename)) (fContentType res) = Unsupported"
    by (simp add: choosePipeline_def typeIs_iff assms(8,9) js_def)
  then show ?thesis
    by (rule convertUrl_unsupported[OF assms(1-7)])
qed

theorem zip_url_is_rejected_witness:
  "fst (respond (convertUrl (serving (Some (js ''application/zip'')) None [[80, 75, 5, 6]])
                  (jsonRequest (js ''http://h/a.zip''))) emptyWorld)
     = Json 415 (js ''Unsupported remote type. Allowed: pdf, docx, txt, rtf, html, zip.'')"
proof -
  have u: "fst (getUrlFromRequest (jsonRequest (js ''http://h/a.zip'')) emptyWorld) = Inr (js ''http://h/a.zip'')"
    by (rule jsonRequest_url) (simp add: js_def)
  have size: "totalBytes [[80, 75, 5, 6 :: 8 word]] \<le> MAX_FILE_BYTES"
    by (simp add: totalBytes_def MAX_FILE_BYTES_def)
  have ct: "guessExtFromContentType (fContentType \<lparr>fOk = True, fStatus = 200,
        fContentType = Some (js ''application/zip''), fContentDisposition = None,
        fBody = Some [[80, 75, 5, 6]]\<rparr>) = Some (js ''.zip'')"
    by (simp add: guess_zip)
  show ?thesis
    using zip_url_is_rejected[OF u http_a_zip serving_fetch _ _ resolve_a_zip size ext_a_zip ct]
    by simp
qed

text \<open>
  C6, as the claim states it, fails: the file name \<open>a.txt\<close> has a supported extension,
  yet with the \<open>Content-Type\<close> of a PDF the route streams the text file back as a PDF and
  never runs the text pipeline.
\<close>

theorem extension_priority_counterexample:
  "pipelineOfExt (toLowerCase (extname (js ''a.txt''))) = TxtPipeline \<and>
   fst (respond (convertUrl (serving (Some (js ''application/pdf'')) None [[104, 105]])
                  (jsonRequest (js ''http://h/a.txt''))) emptyWorld)
     = Stream (Some [104, 105]) (js ''a.txt'') (js ''application/pdf'') \<and>
   calls (snd (respond (convertUrl (serving (Some (js ''application/pdf'')) None [[104, 105]])
                  (jsonRequest (js ''http://h/a.txt''))) emptyWorld)) = []"
proof -
  let ?res = "\<lparr>fOk = True, fStatus = 200, fContentType = Some (js ''application/pdf''),
                fContentDisposition = None, fBody = Some [[104, 105 :: 8 word]]\<rparr>"
  have u: "fst (getUrlFromRequest (jsonRequest (js ''http://h/a.txt'')) emptyWorld) = Inr (js ''http://h/a.txt'')"
    by (rule jsonRequest_url) (simp add: js_def)
  have ok: "fOk ?res" and chunks: "fBody ?res = Some [[104, 105]]"
    by simp_all
  have size: "totalBytes [[104, 105 :: 8 word]] \<le> MAX_FILE_BYTES"
    by (simp add: totalBytes_def MAX_FILE_BYTES_def)
  have pdf: "toLowerCase (extname (js ''a.txt'')) = js ''.pdf'' \<or>
     guessExtFromContentType (fContentType ?res) = Some (js ''.pdf'')"
    by (simp add: guess_pdf)
  note run = convertUrl_downloaded[OF u http_a_txt serving_fetch ok chunks resolve_a_txt size]
  note pass = convertDownloaded_pdf[OF pdf]
  have "pipelineOfExt (toLowerCase (extname (js ''a.txt''))) = TxtPipeline"
    unfolding ext_a_txt by (simp add: pipelineOfExt_def js_def)
  then show ?thesis
    unfolding respond_def run pass by (simp add: emptyWorld_def)
qed

text \<open>
  C6, amended.  The URL route tests the formats in the fixed order pdf, txt, docx, rtf,
  html, and takes a format when the extension of the resolved file name or the
  \<open>Content-Type\<close> denotes it.  So the pipeline is the one the extension denotes, unless
  the \<open>Content-Type\<close> denotes a format that is tested earlier: then it is the one of the
  \<open>Content-Type\<close>.
\<close>

theorem pipeline_follows_test_order:
  "choosePipeline ext contentType =
     (if testOrder (pipelineOfType contentType) < testOrder (pipelineOfExt ext)
      then pipelineOfType contentType
      else pipelineOfExt ext)"
  using guess_range[of contentType]
  by (elim disjE)
    (simp_all add: choosePipeline_def pipelineOfType_def pipelineOfExt_def typeIs_iff js_def)

theorem pipeline_follows_test_order_witness:
  "choosePipeline (js ''.rtf'') None = RtfPipeline \<and>
   choosePipeline (js ''.rtf'') (Some (js ''application/zip'')) = RtfPipeline \<and>
   choosePipeline (js ''.rtf'') (Some (js ''application/pdf'')) = PdfAsIs"
proof -
  have none: "guessExtFromContentType None = None"
    by (simp add: guessExtFromContentType_def)
  have rtf: "pipelineOfExt (js ''.rtf'') = RtfPipeline"
    and zip: "pipelineOfExt (js ''.zip'') = Unsupported"
    and pdf: "pipelineOfExt (js ''.pdf'') = PdfAsIs"
    by (simp_all add: pipelineOfExt_def js_def)
  show ?thesis
    by (simp add: pipeline_follows_test_order pipelineOfType_def none guess_zip guess_pdf rtf zip pdf)
qed

text \<open>
  C5, as the claim states it, fails in one part: the partial output is not discarded.
  After a download that overflows at its second chunk, the temporary file is still there
  and holds the first chunk.
\<close>

theorem partial_download_counterexample:
  "fst (respond (convertUrl (serving None None [[1, 2, 3], upContent oversizedUpload])
                  (jsonRequest (js ''http://h/big.bin''))) emptyWorld)
     = Json 413 (js ''Remote file exceeds 50MB limit.'') \<and>
   files (snd (respond (convertUrl (serving None None [[1, 2, 3], upContent oversizedUpload])
                  (jsonRequest (js ''http://h/big.bin''))) emptyWorld)) (js ''/tmp/0-big.bin'')
     = Some [1, 2, 3]"
proof -
  have u: "fst (getUrlFromRequest (jsonRequest (js ''http://h/big.bin'')) emptyWorld) = Inr (js ''http://h/big.bin'')"
    by (rule jsonRequest_url) (simp add: js_def)
  have k: "Suc 0 < length [[1, 2, 3], upContent oversizedUpload]"
    by simp
  have under: "totalBytes (take (Suc 0) [[1, 2, 3], upContent oversizedUpload]) \<le> MAX_FILE_BYTES"
    by (simp add: totalBytes_def MAX_FILE_BYTES_def)
  have over: "MAX_FILE_BYTES < totalBytes (take (Suc (Suc 0)) [[1, 2, 3], upContent oversizedUpload])"
    by (simp add: totalBytes_def MAX_FILE_BYTES_def oversizedUpload_def)
  show ?thesis
    using convertUrl_exceeds[OF u http_big_bin serving_fetch _ _ resolve_big_bin k under over]
    by (simp add: serving_temp js_def)
qed

text \<open>
  C5, amended.  When the running count of received bytes first exceeds the ceiling at
  the chunk of index \<open>k\<close>, \<open>downloadUrlToTemp\<close> throws the 413 before writing that chunk;
  the chunks before it stay in the temporary file, which is closed and not deleted; no
  path is returned, and the route answers 413 without streaming any file.
\<close>

theorem download_overflow_is_rejected:
  assumes "fetch e urlStr = Inr res" and "fOk res" and "fBody res = Some chunks"
    and "fst (resolveFilename e urlStr res w) = Inr filename"
    and "k < length chunks" and "totalBytes (take k chunks) \<le> maxBytes"
    and "maxBytes < totalBytes (take (Suc k) chunks)"
  shows "downloadUrlToTemp e urlStr maxBytes w =
     (Inl (HTTPException 413 (js ''Remote file exceeds 50MB limit.'')),
      w\<lparr>ticks := Suc (ticks w),
        files := (files w)(tempFor e w filename \<mapsto> concat (take k chunks))\<rparr>) \<and>
     (fst (getUrlFromRequest req w) = Inr urlStr \<and> isHttpUrl urlStr \<and> maxBytes = MAX_FILE_BYTES \<longrightarrow>
      respond (convertUrl e req) w =
        (Json 413 (js ''Remote file exceeds 50MB limit.''),
         w\<lparr>ticks := Suc (ticks w),
           files := (files w)(tempFor e w filename \<mapsto> concat (take k chunks))\<rparr>))"
  using download_exceeds[OF assms] convertUrl_exceeds[OF _ _ assms(1-5)] assms(6,7)
  by blast

theorem download_overflow_is_rejected_witness:
  "fst (downloadUrlToTemp (serving None None [[1, 2, 3], upContent oversizedUpload])
          (js ''http://h/big.bin'') MAX_FILE_BYTES emptyWorld)
     = Inl (HTTPException 413 (js ''Remote file exceeds 50MB limit.'')) \<and>
   files (snd (downloadUrlToTemp (serving None None [[1, 2, 3], upContent oversizedUpload])
          (js ''http://h/big.bin'') MAX_FILE_BYTES emptyWorld)) (js ''/tmp/0-big.bin'') = Some [1, 2, 3] \<and>
   calls (snd (downloadUrlToTemp (serving None None [[1, 2, 3], upContent oversizedUpload])
          (js ''http://h/big.bin'') MAX_FILE_BYTES emptyWorld)) = [] \<and>
   fst (respond (convertUrl (serving None None [[1, 2, 3], upContent oversizedUpload])
          (jsonRequest (js ''http://h/big.bin''))) emptyWorld)
     = Json 413 (js ''Remote file exceeds 50MB limit.'')"
proof -
  let ?chunks = "[[1, 2, 3], upContent oversizedUpload]"
  let ?res = "\<lparr>fOk = True, fStatus = 200, fContentType = None, fContentDisposition = None,
                fBody = Some ?chunks\<rparr>"
  have u: "fst (getUrlFromRequest (jsonRequest (js ''http://h/big.bin'')) emptyWorld) = Inr (js ''http://h/big.bin'')"
    by (rule jsonRequest_url) (simp add: js_def)
  have ok: "fOk ?res" and body: "fBody ?res = Some ?chunks"
    by simp_all
  have k: "Suc 0 < length ?chunks"
    by simp
  have under: "totalBytes (take (Suc 0) ?chunks) \<le> MAX_FILE_BYTES"
    by (simp add: totalBytes_def MAX_FILE_BYTES_def)
  have over: "MAX_FILE_BYTES < totalBytes (take (Suc (Suc 0)) ?chunks)"
    by (simp add: totalBytes_def MAX_FILE_BYTES_def oversizedUpload_def)
  note both = download_overflow_is_rejected[OF serving_fetch ok body resolve_big_bin k under over,
      where req="jsonRequest (js ''http://h/big.bin'')"]
  note dl = both[THEN conjunct1]
  have route: "respond (convertUrl (serving None None ?chunks) (jsonRequest (js ''http://h/big.bin''))) emptyWorld =
      (Json 413 (js ''Remote file exceeds 50MB limit.''),
       emptyWorld\<lparr>ticks := Suc (ticks emptyWorld),
         files := (files emptyWorld)(tempFor (serving None None ?chunks) emptyWorld (js ''big.bin'')
            \<mapsto> concat (take (Suc 0) ?chunks))\<rparr>)"
    using both[THEN conjunct2] u http_big_bin by blast
  show ?thesis
    unfolding dl route by (simp add: temp_big_bin emptyWorld_calls)
qed

lemma formRequest_url:
  "formGet form (js ''url'') = Some (FString u) \<Longrightarrow>
   fst (getUrlFromRequest (formRequest form) w) = Inr u"
  by (simp add: getUrlFromRequest_def formRequest_def startsWith_def formDataOf_def andThen_def
      ret_def Let_def js_def)

lemma getUrl_ignores_file:
  assumes "reqFormData req = Inr form"
  shows "getUrlFromRequest (req\<lparr>reqFormData := Inr (filter (\<lambda>(k, v). k \<noteq> js ''file'') form)\<rparr>) =
         getUrlFromRequest req"
proof -
  have ne: "js ''url'' \<noteq> js ''file''" by (simp add: js_def)
  have "formGet (filter (\<lambda>(k, v). k \<noteq> js ''file'') form) (js ''url'') = formGet form (js ''url'')"
    unfolding formGet_def by (rule map_of_filter_other[OF ne])
  then show ?thesis
    by (simp add: getUrlFromRequest_def formDataOf_def assms andThen_ret Let_def)
qed

lemma choose_txt: "choosePipeline (js ''.txt'') None = TxtPipeline"
  by (simp add: choosePipeline_def typeIs_def truthy_def) (simp add: js_def)

lemma convertDownloaded_txt:
  assumes "choosePipeline (toLowerCase (extname filename)) ct = TxtPipeline"
    and "files w tmp = Some content"
    and "firstFailure (encodeFailure e)
           (encodedStrings (embedFont e) (textDecode e content) filename) = None"
  shows "fst (convertDownloaded e tmp filename ct w) =
           Inr (Stream (Some (pdfSave e (txtPages e content filename)))
                  (basenameExt filename (js ''.txt'') @ js ''.pdf'') (js ''application/pdf''))"
    and "calls (snd (convertDownloaded e tmp filename ct w)) =
           calls w @ [CallTxtToPdf content filename]"
  using assms
  by (simp_all add: convertDownloaded_def txtToPdf_toPath_def andThen_def ret_def readFile_def
      logCall_def freshStamp_def writeFile_def streamFile_def Let_def)

lemma basename_a_txt: "basenameExt (js ''a.txt'') (js ''.txt'') = js ''a''"
  by (simp add: basenameExt_def js_def)

lemma example_pdf_hi:
  "pdfSave (serving ct cd chunks) (txtPages (serving ct cd chunks) [104, 105] name) = [104, 105]"
proof -
  have "layoutLines halfEm [104, 105] = [[104, 105]]"
    by (simp add: layoutLines_def splitWhitespace_def isWhiteSpace_def wrapWords_def wordStep_def
        halfEm_def fontSize_def maxWidth_def pageSize_def margin_def)
  then show ?thesis
    by (simp add: serving_def exampleEnv_def txtPages_def bodyLines_txtDocument)
qed

text \<open>
  C4, as the claim states it, fails on \<open>/convert/url\<close>: the route takes multipart requests
  and reads their field \<open>url\<close> only, so a request that carries a file of more than
  \<open>50 * 1024 * 1024\<close> bytes beside the URL of a small text is answered with the converted
  PDF, after the text adapter has run.
\<close>

theorem oversized_upload_url_route_counterexample:
  "MAX_FILE_BYTES < length (upContent oversizedUpload) \<and>
   fst (respond (convertUrl (serving None None [[104, 105]])
          (formRequest [(js ''url'', FString (js ''http://h/a.txt'')),
                        (js ''file'', FFile oversizedUpload)])) emptyWorld) =
     Stream (Some [104, 105]) (js ''a.pdf'') (js ''application/pdf'') \<and>
   calls (snd (respond (convertUrl (serving None None [[104, 105]])
          (formRequest [(js ''url'', FString (js ''http://h/a.txt'')),
                        (js ''file'', FFile oversizedUpload)])) emptyWorld)) =
     [CallTxtToPdf [104, 105] (js ''a.txt'')]"
proof -
  let ?e = "serving None None [[104, 105]]"
  let ?req = "formRequest [(js ''url'', FString (js ''http://h/a.txt'')),
                           (js ''file'', FFile oversizedUpload)]"
  let ?tmp = "tempFor ?e emptyWorld (js ''a.txt'')"
  let ?w1 = "emptyWorld\<lparr>ticks := Suc (ticks emptyWorld),
               files := (files emptyWorld)(?tmp \<mapsto> concat [[104, 105]])\<rparr>"
  have u: "fst (getUrlFromRequest ?req emptyWorld) = Inr (js ''http://h/a.txt'')"
    by (rule formRequest_url) (simp add: formGet_def)
  have size: "totalBytes [[104, 105 :: 8 word]] \<le> MAX_FILE_BYTES"
    by (simp add: totalBytes_def MAX_FILE_BYTES_def)
  have run: "convertUrl ?e ?req emptyWorld = convertDownloaded ?e ?tmp (js ''a.txt'') None ?w1"
    using convertUrl_downloaded[OF u http_a_txt serving_fetch _ _ resolve_a_txt size]
    by simp
  have pipeline: "choosePipeline (toLowerCase (extname (js ''a.txt''))) None = TxtPipeline"
    by (simp only: ext_a_txt choose_txt)
  have stored: "files ?w1 ?tmp = Some [104, 105]"
    by simp
  have encodes: "firstFailure (encodeFailure ?e)
      (encodedStrings (embedFont ?e) (textDecode ?e [104, 105]) (js ''a.txt'')) = None"
    by (simp add: serving_def exampleEnv_def firstFailure_none)
  have name: "basenameExt (js ''a.txt'') (js ''.txt'') @ js ''.pdf'' = js ''a.pdf''"
    by (simp add: basename_a_txt) (simp add: js_def)
  have "fst (convertUrl ?e ?req emptyWorld) =
      Inr (Stream (Some [104, 105]) (js ''a.pdf'') (js ''application/pdf''))"
    unfolding run convertDownloaded_txt(1)[OF pipeline stored encodes]
    by (simp only: example_pdf_hi name)
  moreover have "calls (snd (convertUrl ?e ?req emptyWorld)) = [CallTxtToPdf [104, 105] (js ''a.txt'')]"
    unfolding run convertDownloaded_txt(2)[OF pipeline stored encodes]
    by (simp add: emptyWorld_def)
  ultimately show ?thesis
    using oversized_hyp
    by (cases "convertUrl ?e ?req emptyWorld") (auto simp: respond_def split: sum.splits)
qed

text \<open>
  C4, amended.  Every route that reads an uploaded file (\<open>/api/convert/txt\<close>, \<open>rtf\<close>,
  \<open>docx\<close>, \<open>html\<close> and \<open>/convert/zip\<close>) answers a request whose \<open>file\<close> field is a file of
  more than \<open>50 * 1024 * 1024\<close> bytes with the status 413, and leaves the world as it
  was: no converter has been invoked and no file has been written.  The route
  \<open>/convert/url\<close> does not read that field: it behaves on the request as it does on the
  request without its \<open>file\<close> fields.
\<close>

theorem oversized_upload_rejected:
  assumes "reqFormData req = Inr form"
    and "formGet form (js ''file'') = Some (FFile f)"
    and "length (upContent f) > MAX_FILE_BYTES"
  shows "respond (convertTxt e req) w = (Json 413 (js ''File too large. Max size is 50MB.''), w) \<and>
         respond (convertRtf e req) w = (Json 413 (js ''File too large. Max size is 50MB.''), w) \<and>
         respond (convertDocx e req) w = (Json 413 (js ''File too large. Max size is 50MB.''), w) \<and>
         respond (convertHtml e req) w = (Json 413 (js ''File too large. Max size is 50MB.''), w) \<and>
         respond (convertZip e req) w = (Json 413 (js ''File too large. Max size is 50MB.''), w) \<and>
         convertUrl e req =
           convertUrl e (req\<lparr>reqFormData := Inr (filter (\<lambda>(k, v). k \<noteq> js ''file'') form)\<rparr>)"
proof -
  note rf = readFormFile_file[OF assms(1,2)]
  note lim = enforceFileLimit_over[OF assms(3)]
  have c_txt: "convertTxt e req = throw (HTTPException 413 (js ''File too large. Max size is 50MB.''))"
    by (simp add: convertTxt_def rf lim andThen_ret andThen_throw)
  have rtf: "convertRtf e req = throw (HTTPException 413 (js ''File too large. Max size is 50MB.''))"
    by (simp add: convertRtf_def rf lim andThen_ret andThen_throw)
  have docx: "convertDocx e req = throw (HTTPException 413 (js ''File too large. Max size is 50MB.''))"
    by (simp add: convertDocx_def rf lim andThen_ret andThen_throw)
  have zip: "convertZip e req = throw (HTTPException 413 (js ''File too large. Max size is 50MB.''))"
    by (simp add: convertZip_def rf lim andThen_ret andThen_throw)
  have "htmlInput e req = throw (HTTPException 413 (js ''File too large. Max size is 50MB.''))"
    using assms(1,2) by (simp add: htmlInput_def formDataOf_def lim andThen_ret andThen_throw)
  then have html: "convertHtml e req = throw (HTTPException 413 (js ''File too large. Max size is 50MB.''))"
    by (simp add: convertHtml_def andThen_throw)
  have url: "convertUrl e req =
      convertUrl e (req\<lparr>reqFormData := Inr (filter (\<lambda>(k, v). k \<noteq> js ''file'') form)\<rparr>)"
    by (simp only: convertUrl_def getUrl_ignores_file[OF assms(1)])
  show ?thesis
    by (simp only: c_txt rtf docx zip html respond_throw onError_http) (simp add: url[symmetric])
qed

theorem oversized_upload_rejected_witness:
  "respond (convertTxt exampleEnv (formRequest [(js ''file'', FFile oversizedUpload)])) emptyWorld
     = (Json 413 (js ''File too large. Max size is 50MB.''), emptyWorld) \<and>
   respond (convertRtf exampleEnv (formRequest [(js ''file'', FFile oversizedUpload)])) emptyWorld
     = (Json 413 (js ''File too large. Max size is 50MB.''), emptyWorld) \<and>
   respond (convertDocx exampleEnv (formRequest [(js ''file'', FFile oversizedUpload)])) emptyWorld
     = (Json 413 (js ''File too large. Max size is 50MB.''), emptyWorld) \<and>
   respond (convertHtml exampleEnv (formRequest [(js ''file'', FFile oversizedUpload)])) emptyWorld
     = (Json 413 (js ''File too large. Max size is 50MB.''), emptyWorld) \<and>
   respond (convertZip exampleEnv (formRequest [(js ''file'', FFile oversizedUpload)])) emptyWorld
     = (Json 413 (js ''File too large. Max size is 50MB.''), emptyWorld) \<and>
   convertUrl exampleEnv (formRequest [(js ''file'', FFile oversizedUpload)]) =
     convertUrl exampleEnv ((formRequest [(js ''file'', FFile oversizedUpload)])
       \<lparr>reqFormData := Inr (filter (\<lambda>(k, v). k \<noteq> js ''file'') [(js ''file'', FFile oversizedUpload)])\<rparr>)"
proof -
  have a: "reqFormData (formRequest [(js ''file'', FFile oversizedUpload)]) = Inr [(js ''file'', FFile oversizedUpload)]"
    by (simp add: formRequest_def)
  show ?thesis
    using oversized_upload_rejected[OF a formGet_hyp oversized_hyp, of exampleEnv emptyWorld]
    by blast
qed

section \<open>Proofs about the ZIP batch\<close>

lemma mapSet_keys: "set (map fst (mapSet k v m)) = insert k (set (map fst m))"
  by (induction k v m rule: mapSet.induct) (simp_all add: insert_commute)

lemma mapSet_distinct: "distinct (map fst m) \<Longrightarrow> distinct (map fst (mapSet k v m))"
proof (induction k v m rule: mapSet.induct)
  case (1 k v)
  then show ?case by simp
next
  case (2 k v k' v' m)
  show ?case
  proof (cases "k' = k")
    case True
    then show ?thesis using 2(2) by simp
  next
    case False
    have "k' \<notin> set (map fst (mapSet k v m))"
      using 2(2) False by (simp only: mapSet_keys) simp
    then show ?thesis using 2 False by simp
  qed
qed

lemma map_of_mapSet: "map_of (mapSet k v m) = (map_of m)(k \<mapsto> v)"
  by (induction k v m rule: mapSet.induct) (auto simp: fun_eq_iff)

lemma length_mapSet: "length (mapSet k v m) \<le> Suc (length m)"
  by (induction k v m rule: mapSet.induct) auto

lemma andThen_InrE:
  "andThen m f w = (Inr r, w') \<Longrightarrow> \<exists>x w1. m w = (Inr x, w1) \<and> f x w1 = (Inr r, w')"
  by (auto simp: andThen_def split: prod.splits sum.splits)

lemma ret_InrE: "ret x w = (Inr r, w') \<Longrightarrow> r = x \<and> w' = w"
  by (simp add: ret_def)

lemma supported_cases:
  "entrySupported path \<longleftrightarrow>
     toLowerCase (extname path) = js ''.txt'' \<or> toLowerCase (extname path) = js ''.docx'' \<or>
     toLowerCase (extname path) = js ''.rtf'' \<or> toLowerCase (extname path) = js ''.html'' \<or>
     toLowerCase (extname path) = js ''.htm''"
  by (auto simp: entrySupported_def)

lemma ext_distinct:
  "js ''.txt'' \<noteq> js ''.docx''" "js ''.txt'' \<noteq> js ''.rtf''" "js ''.txt'' \<noteq> js ''.html''"
  "js ''.txt'' \<noteq> js ''.htm''" "js ''.docx'' \<noteq> js ''.rtf''" "js ''.docx'' \<noteq> js ''.html''"
  "js ''.docx'' \<noteq> js ''.htm''" "js ''.rtf'' \<noteq> js ''.html''" "js ''.rtf'' \<noteq> js ''.htm''"
  "js ''.html'' \<noteq> js ''.htm''"
  by (simp_all add: js_def)

lemma zipEntry_unsupported: "\<not> entrySupported path \<Longrightarrow> zipEntry e out path c = ret out"
  by (simp add: zipEntry_def supported_cases Let_def)

lemma zipEntry_shape:
  assumes "entrySupported path" and "zipEntry e out path c w = (Inr out', w')"
  shows "\<exists>b. out' = mapSet (entryTarget path) b out"
proof -
  consider (t) "toLowerCase (extname path) = js ''.txt''"
    | (d) "toLowerCase (extname path) = js ''.docx''"
    | (r) "toLowerCase (extname path) = js ''.rtf''"
    | (h) "toLowerCase (extname path) = js ''.html'' \<or> toLowerCase (extname path) = js ''.htm''"
    using assms(1) by (auto simp: supported_cases)
  then show ?thesis
  proof cases
    case t
    then have tg: "entryTarget path = replaceExt path (js ''.txt'')"
      by (simp add: entryTarget_def)
    from assms(2) t show ?thesis
      unfolding tg
      by (auto simp: zipEntry_def dest!: andThen_InrE ret_InrE)
  next
    case d
    then have tg: "entryTarget path = replaceExt path (js ''.docx'')"
      by (simp add: entryTarget_def ext_distinct[symmetric])
    from assms(2) d show ?thesis
      unfolding tg
      by (auto simp: zipEntry_def ext_distinct[symmetric] dest!: andThen_InrE ret_InrE)
  next
    case r
    then have tg: "entryTarget path = replaceExt path (js ''.rtf'')"
      by (simp add: entryTarget_def ext_distinct[symmetric])
    from assms(2) r show ?thesis
      unfolding tg
      by (auto simp: zipEntry_def ext_distinct[symmetric] dest!: andThen_InrE ret_InrE)
  next
    case h
    then have tg: "entryTarget path = replaceHtmlExt path"
      by (auto simp: entryTarget_def ext_distinct[symmetric])
    from assms(2) h show ?thesis
      unfolding tg
      by (auto simp: zipEntry_def Let_def ext_distinct[symmetric] dest!: andThen_InrE ret_InrE)
  qed
qed

lemma zipEntry_stores:
  assumes "entrySupported path" and "zipEntry e out path c w = (Inr out', w')"
  shows "\<exists>b. \<forall>m. zipEntry e m path c w = (Inr (mapSet (entryTarget path) b m), w')"
proof -
  consider (t) "toLowerCase (extname path) = js ''.txt''"
    | (d) "toLowerCase (extname path) = js ''.docx''"
    | (r) "toLowerCase (extname path) = js ''.rtf''"
    | (h) "toLowerCase (extname path) = js ''.html'' \<or> toLowerCase (extname path) = js ''.htm''"
    using assms(1) by (auto simp: supported_cases)
  then show ?thesis
  proof cases
    case t
    then have tg: "entryTarget path = replaceExt path (js ''.txt'')"
      by (simp add: entryTarget_def)
    from assms(2) t obtain pdfPath w1 b where
      "txtToPdf_toPath e c (basename path) w = (Inr pdfPath, w1)"
      "readFile pdfPath w1 = (Inr b, w')"
      by (auto simp: zipEntry_def dest!: andThen_InrE ret_InrE)
    then have "\<forall>m. zipEntry e m path c w = (Inr (mapSet (entryTarget path) b m), w')"
      using t unfolding tg by (simp add: zipEntry_def andThen_def ret_def)
    then show ?thesis by blast
  next
    case d
    then have tg: "entryTarget path = replaceExt path (js ''.docx'')"
      by (simp add: entryTarget_def ext_distinct[symmetric])
    from assms(2) d obtain html w1 pdfPath w2 b where
      "mammothToHtml e c w = (Inr html, w1)"
      "htmlToPdfWithWK_toPath e (styledDocument html) (basename path) w1 = (Inr pdfPath, w2)"
      "readFile pdfPath w2 = (Inr b, w')"
      by (auto simp: zipEntry_def ext_distinct[symmetric] dest!: andThen_InrE ret_InrE)
    then have "\<forall>m. zipEntry e m path c w = (Inr (mapSet (entryTarget path) b m), w')"
      using d unfolding tg by (simp add: zipEntry_def ext_distinct[symmetric] andThen_def ret_def)
    then show ?thesis by blast
  next
    case r
    then have tg: "entryTarget path = replaceExt path (js ''.rtf'')"
      by (simp add: entryTarget_def ext_distinct[symmetric])
    from assms(2) r obtain html w1 pdfPath w2 b where
      "rtfToHtmlWithUnrtf e c w = (Inr html, w1)"
      "htmlToPdfWithWK_toPath e (styledDocument html) (basename path) w1 = (Inr pdfPath, w2)"
      "readFile pdfPath w2 = (Inr b, w')"
      by (auto simp: zipEntry_def ext_distinct[symmetric] dest!: andThen_InrE ret_InrE)
    then have "\<forall>m. zipEntry e m path c w = (Inr (mapSet (entryTarget path) b m), w')"
      using r unfolding tg by (simp add: zipEntry_def ext_distinct[symmetric] andThen_def ret_def)
    then show ?thesis by blast
  next
    case h
    then have tg: "entryTarget path = replaceHtmlExt path"
      by (auto simp: entryTarget_def ext_distinct[symmetric])
    have branch: "zipEntry e m path c =
        andThen (htmlToPdfWithWK_toPath e (normalizeHtmlWrapper (textDecode e c)) (basename path))
          (\<lambda>pdfPath. andThen (readFile pdfPath)
             (\<lambda>pdfBytes. ret (mapSet (replaceHtmlExt path) pdfBytes m)))" for m
      using h by (auto simp: zipEntry_def Let_def ext_distinct ext_distinct[symmetric])
    from assms(2) obtain pdfPath w1 b where
      "htmlToPdfWithWK_toPath e (normalizeHtmlWrapper (textDecode e c)) (basename path) w = (Inr pdfPath, w1)"
      "readFile pdfPath w1 = (Inr b, w')"
      unfolding branch by (auto dest!: andThen_InrE ret_InrE)
    then have "\<forall>m. zipEntry e m path c w = (Inr (mapSet (entryTarget path) b m), w')"
      unfolding tg branch by (simp add: andThen_def ret_def)
    then show ?thesis by blast
  qed
qed

lemma zipLoop_filter:
  "zipLoop e out entries = zipLoop e out (filter (\<lambda>(p, d). entrySupported p) entries)"
proof (induction entries arbitrary: out)
  case Nil
  then show ?case by simp
next
  case (Cons x entries)
  obtain p d where x: "x = (p, d)" by (cases x)
  show ?case
  proof (cases "entrySupported p")
    case True
    then show ?thesis using Cons by (simp add: x)
  next
    case False
    have "andThen (ret out) (\<lambda>out1. zipLoop e out1 entries) = zipLoop e out entries"
      by (rule ext) (simp add: andThen_def ret_def)
    then show ?thesis using False Cons by (simp add: x zipEntry_unsupported)
  qed
qed

lemma zipLoop_keys:
  "zipLoop e out entries w = (Inr out', w') \<Longrightarrow>
   set (map fst out') = set (map fst out) \<union> entryTarget ` {p \<in> fst ` set entries. entrySupported p} \<and>
   (distinct (map fst out) \<longrightarrow> distinct (map fst out')) \<and>
   length out' \<le> length out + length (filter (\<lambda>(p, d). entrySupported p) entries)"
proof (induction entries arbitrary: out w)
  case Nil
  then show ?case by (simp add: ret_def)
next
  case (Cons x entries)
  obtain p d where x: "x = (p, d)" by (cases x)
  obtain out1 w1 where step: "zipEntry e out p d w = (Inr out1, w1)"
    and rest: "zipLoop e out1 entries w1 = (Inr out', w')"
    using Cons.prems andThen_InrE[of "zipEntry e out p d" "\<lambda>out1. zipLoop e out1 entries" w out' w']
    by (auto simp: x)
  note ih = Cons.IH[OF rest]
  show ?case
  proof (cases "entrySupported p")
    case True
    obtain b where b: "out1 = mapSet (entryTarget p) b out"
      using zipEntry_shape[OF True step] by blast
    have k: "set (map fst out1) = insert (entryTarget p) (set (map fst out))"
      by (simp only: b mapSet_keys)
    have dd: "distinct (map fst out) \<longrightarrow> distinct (map fst out1)"
      by (simp only: b) (blast intro: mapSet_distinct)
    have ll: "length out1 \<le> Suc (length out)"
      by (simp only: b length_mapSet)
    have img: "entryTarget ` {q \<in> fst ` set (x # entries). entrySupported q} =
               insert (entryTarget p) (entryTarget ` {q \<in> fst ` set entries. entrySupported q})"
      using True by (auto simp: x)
    show ?thesis
      using ih k dd ll True unfolding img by (auto simp: x)
  next
    case False
    then have "out1 = out" using step by (simp add: zipEntry_unsupported ret_def)
    moreover have "entryTarget ` {q \<in> fst ` set (x # entries). entrySupported q} =
               entryTarget ` {q \<in> fst ` set entries. entrySupported q}"
      using False by (auto simp: x)
    ultimately show ?thesis using ih False by (simp add: x)
  qed
qed

lemma zipLoop_append:
  "zipLoop e out (xs @ ys) = andThen (zipLoop e out xs) (\<lambda>o1. zipLoop e o1 ys)"
proof (induction xs arbitrary: out)
  case Nil
  show ?case by (rule ext) (simp add: andThen_def ret_def)
next
  case (Cons x xs)
  obtain p d where x: "x = (p, d)" by (cases x)
  show ?case
    by (rule ext) (simp add: x Cons andThen_def split: prod.splits sum.splits)
qed

lemma zipLoop_keeps:
  "zipLoop e out entries w = (Inr out', w') \<Longrightarrow>
   \<forall>(q, c) \<in> set entries. entrySupported q \<longrightarrow> entryTarget q \<noteq> t \<Longrightarrow>
   map_of out' t = map_of out t"
proof (induction entries arbitrary: out w)
  case Nil
  then show ?case by (simp add: ret_def)
next
  case (Cons x entries)
  obtain p d where x: "x = (p, d)" by (cases x)
  obtain out1 w1 where step: "zipEntry e out p d w = (Inr out1, w1)"
    and rest: "zipLoop e out1 entries w1 = (Inr out', w')"
    using Cons.prems(1) andThen_InrE[of "zipEntry e out p d" "\<lambda>out1. zipLoop e out1 entries" w out' w']
    by (auto simp: x)
  have later: "\<forall>(q, c) \<in> set entries. entrySupported q \<longrightarrow> entryTarget q \<noteq> t"
    using Cons.prems(2) by simp
  have "map_of out1 t = map_of out t"
  proof (cases "entrySupported p")
    case True
    obtain b where b: "out1 = mapSet (entryTarget p) b out"
      using zipEntry_shape[OF True step] by blast
    have "entryTarget p \<noteq> t" using Cons.prems(2) True by (simp add: x)
    then show ?thesis by (simp add: b map_of_mapSet)
  next
    case False
    then show ?thesis using step by (simp add: zipEntry_unsupported ret_def)
  qed
  then show ?case using Cons.IH[OF rest later] by simp
qed

lemma lastComponent_suffix: "\<exists>pre. stripTrailingSlashes p = pre @ lastComponent p"
proof -
  let ?s = "stripTrailingSlashes p"
  have "rev ?s = takeWhile (\<lambda>c. c \<noteq> 47) (rev ?s) @ dropWhile (\<lambda>c. c \<noteq> 47) (rev ?s)"
    by simp
  then have "?s = rev (dropWhile (\<lambda>c. c \<noteq> 47) (rev ?s)) @ rev (takeWhile (\<lambda>c. c \<noteq> 47) (rev ?s))"
    by (metis rev_append rev_rev_ident)
  then show ?thesis unfolding lastComponent_def by blast
qed

lemma extname_suffix: "\<exists>pre. stripTrailingSlashes p = pre @ extname p"
proof -
  obtain pre where pre: "stripTrailingSlashes p = pre @ lastComponent p"
    using lastComponent_suffix by blast
  have "\<exists>n. extname p = drop n (lastComponent p)"
  proof (cases "extname p = []")
    case True
    then have "extname p = drop (length (lastComponent p)) (lastComponent p)" by simp
    then show ?thesis by blast
  next
    case False
    then show ?thesis
      by (auto simp: extname_def Let_def split: if_splits)
  qed
  then obtain n where n: "extname p = drop n (lastComponent p)" by blast
  have "stripTrailingSlashes p = (pre @ take n (lastComponent p)) @ extname p"
    by (simp add: pre n)
  then show ?thesis by blast
qed

lemma no_trailing_slash: "\<not> endsWith p [47] \<Longrightarrow> stripTrailingSlashes p = p"
proof (cases p rule: rev_cases)
  case Nil
  then show ?thesis by (simp add: stripTrailingSlashes_def)
next
  case (snoc ys y)
  assume "\<not> endsWith p [47]"
  then have "y \<noteq> 47" using snoc by (simp add: endsWith_def)
  then show ?thesis using snoc by (simp add: stripTrailingSlashes_def)
qed

lemma length_toLowerCase: "length (toLowerCase s) = length s"
  by (simp add: toLowerCase_def)

lemma toLowerCase_append: "toLowerCase (a @ b) = toLowerCase a @ toLowerCase b"
  by (simp add: toLowerCase_def)

lemma replaceExt_suffix:
  assumes "toLowerCase x = toLowerCase ext"
  shows "replaceExt (pre @ x) ext = pre @ js ''.pdf''"
proof -
  have len: "length x = length ext"
    using assms length_toLowerCase by metis
  have "endsWithCI (pre @ x) ext"
    by (simp add: endsWithCI_def endsWith_def toLowerCase_append length_toLowerCase len assms)
  then show ?thesis by (simp add: replaceExt_def len)
qed

lemma lower_lits:
  "toLowerCase (js ''.txt'') = js ''.txt''" "toLowerCase (js ''.docx'') = js ''.docx''"
  "toLowerCase (js ''.rtf'') = js ''.rtf''" "toLowerCase (js ''.html'') = js ''.html''"
  "toLowerCase (js ''.htm'') = js ''.htm''"
  by (simp_all add: toLowerCase_def lowerChar_def js_def)

lemma endsWith_last: "endsWith s t \<Longrightarrow> t \<noteq> [] \<Longrightarrow> last s = last t"
proof -
  assume a: "endsWith s t" and b: "t \<noteq> []"
  have d: "drop (length s - length t) s = t" using a by (simp add: endsWith_def)
  have "take (length s - length t) s @ drop (length s - length t) s = s"
    by (rule append_take_drop_id)
  then have "s = take (length s - length t) s @ t" unfolding d by simp
  then show ?thesis using b by (metis last_appendR)
qed

lemma htm_not_html:
  assumes "toLowerCase x = js ''.htm''"
  shows "\<not> endsWithCI (pre @ x) (js ''.html'')"
proof
  assume "endsWithCI (pre @ x) (js ''.html'')"
  then have "endsWith (toLowerCase pre @ js ''.htm'') (js ''.html'')"
    by (simp add: endsWithCI_def toLowerCase_append assms lower_lits)
  then have "last (toLowerCase pre @ js ''.htm'') = last (js ''.html'')"
    by (rule endsWith_last) (simp add: js_def)
  then show False by (simp add: js_def)
qed

lemma entryTarget_replaces_extension:
  assumes "entrySupported path" and "\<not> endsWith path [47]"
  shows "path = take (length path - length (extname path)) path @ extname path \<and>
         entryTarget path = take (length path - length (extname path)) path @ js ''.pdf''"
proof -
  obtain pre where "stripTrailingSlashes path = pre @ extname path"
    using extname_suffix by blast
  then have p: "path = pre @ extname path"
    using no_trailing_slash[OF assms(2)] by simp
  have tk: "take (length path - length (extname path)) path = pre"
    by (subst (1 2) p) simp
  consider (t) "toLowerCase (extname path) = js ''.txt''"
    | (d) "toLowerCase (extname path) = js ''.docx''"
    | (r) "toLowerCase (extname path) = js ''.rtf''"
    | (h) "toLowerCase (extname path) = js ''.html''"
    | (m) "toLowerCase (extname path) = js ''.htm''"
    using assms(1) by (auto simp: supported_cases)
  then have "entryTarget path = pre @ js ''.pdf''"
  proof cases
    case t
    then have "entryTarget path = replaceExt path (js ''.txt'')"
      by (simp add: entryTarget_def)
    also have "\<dots> = pre @ js ''.pdf''"
      by (subst p, rule replaceExt_suffix) (simp add: t lower_lits)
    finally show ?thesis .
  next
    case d
    then have "entryTarget path = replaceExt path (js ''.docx'')"
      by (simp add: entryTarget_def ext_distinct[symmetric])
    also have "\<dots> = pre @ js ''.pdf''"
      by (subst p, rule replaceExt_suffix) (simp add: d lower_lits)
    finally show ?thesis .
  next
    case r
    then have "entryTarget path = replaceExt path (js ''.rtf'')"
      by (simp add: entryTarget_def ext_distinct[symmetric])
    also have "\<dots> = pre @ js ''.pdf''"
      by (subst p, rule replaceExt_suffix) (simp add: r lower_lits)
    finally show ?thesis .
  next
    case h
    have "endsWithCI path (js ''.html'')"
      by (subst p) (simp add: endsWithCI_def endsWith_def toLowerCase_append h lower_lits length_toLowerCase)
    then have "entryTarget path = replaceExt path (js ''.html'')"
      using h by (simp add: entryTarget_def replaceHtmlExt_def ext_distinct[symmetric])
    also have "\<dots> = pre @ js ''.pdf''"
      by (subst p, rule replaceExt_suffix) (simp add: h lower_lits)
    finally show ?thesis .
  next
    case m
    have "\<not> endsWithCI path (js ''.html'')"
      by (subst p) (rule htm_not_html[OF m])
    then have "entryTarget path = replaceExt path (js ''.htm'')"
      using m by (simp add: entryTarget_def replaceHtmlExt_def ext_distinct[symmetric])
    also have "\<dots> = pre @ js ''.pdf''"
      by (subst p, rule replaceExt_suffix) (simp add: m lower_lits)
    finally show ?thesis .
  qed
  then show ?thesis using p tk by simp
qed

lemmas io_defs = andThen_def ret_def throw_def freshStamp_def writeFile_def readFile_def
  logCall_def runProcess_def orDefault_def

lemma ext_a_rtf: "toLowerCase (extname (js ''a.rtf'')) = js ''.rtf''"
  by (simp add: path_defs js_def Let_def)

lemma target_a_txt: "replaceExt (js ''a.txt'') (js ''.txt'') = js ''a.pdf''"
  by (simp add: replaceExt_def endsWithCI_def path_defs js_def)

lemma target_a_rtf: "replaceExt (js ''a.rtf'') (js ''.rtf'') = js ''a.pdf''"
  by (simp add: replaceExt_def endsWithCI_def path_defs js_def)

lemma zipEntry_txt:
  "toLowerCase (extname p) = js ''.txt'' \<Longrightarrow>
   firstFailure (encodeFailure e)
     (encodedStrings (embedFont e) (textDecode e c) (basename p)) = None \<Longrightarrow>
   \<exists>w1. zipEntry e out p c w =
     (Inr (mapSet (replaceExt p (js ''.txt'')) (pdfSave e (txtPages e c (basename p))) out), w1)"
  by (simp add: zipEntry_def txtToPdf_toPath_def io_defs Let_def)

lemma example_rtf_entry:
  "toLowerCase (extname p) = js ''.rtf'' \<Longrightarrow>
   \<exists>w1. zipEntry exampleEnv out p c w =
     (Inr (mapSet (replaceExt p (js ''.rtf'')) (map of_nat (styledDocument (map unat c))) out), w1)"
proof -
  assume r: "toLowerCase (extname p) = js ''.rtf''"
  have names: "js ''wkhtmltopdf'' \<noteq> js ''unrtf''" by (simp add: js_def)
  have sel: "spawn exampleEnv = exampleSpawn" "envUNRTF_PATH exampleEnv = None"
    "envWKHTMLTOPDF_PATH exampleEnv = None" "textEncode exampleEnv = map of_nat"
    by (simp_all add: exampleEnv_def)
  show ?thesis
    by (simp add: zipEntry_def r ext_distinct[symmetric] rtfToHtmlWithUnrtf_def
        htmlToPdfWithWK_toPath_def io_defs sel exampleSpawn_def names Let_def)
qed

lemma supported_run:
  "fst (zipLoop exampleEnv [] [(js ''a.txt'', [104, 105]), (js ''a.rtf'', [114])] emptyWorld) =
     Inr [(js ''a.pdf'', map of_nat (styledDocument [114]))]"
proof -
  obtain w1 where s1: "zipEntry exampleEnv [] (js ''a.txt'') [104, 105] emptyWorld =
     (Inr (mapSet (replaceExt (js ''a.txt'') (js ''.txt''))
            (pdfSave exampleEnv (txtPages exampleEnv [104, 105] (basename (js ''a.txt'')))) []), w1)"
    using zipEntry_txt[OF ext_a_txt example_encodes, where out="[]" and c="[104, 105]" and w=emptyWorld]
    by blast
  let ?out1 = "[(js ''a.pdf'', pdfSave exampleEnv (txtPages exampleEnv [104, 105] (basename (js ''a.txt''))))]"
  obtain w2 where s2: "zipEntry exampleEnv ?out1 (js ''a.rtf'') [114] w1 =
     (Inr (mapSet (replaceExt (js ''a.rtf'') (js ''.rtf'')) (map of_nat (styledDocument (map unat [114 :: 8 word]))) ?out1), w2)"
    using example_rtf_entry[OF ext_a_rtf, where out="?out1" and c="[114]" and w=w1]
    by blast
  show ?thesis
    by (simp add: andThen_def s1 target_a_txt s2 target_a_rtf ret_def)
qed

lemma ext_setup_exe: "toLowerCase (extname (js ''setup.exe'')) = js ''.exe''"
  by (simp add: path_defs js_def Let_def)

lemma entry_setup_exe: "\<not> entrySupported (js ''setup.exe'')"
  by (simp add: supported_cases ext_setup_exe) (simp add: js_def)

lemma colliding_supported:
  "filter (\<lambda>(q, c). entrySupported q) collidingEntries =
     [(js ''a.txt'', [104, 105]), (js ''a.rtf'', [114])]"
  by (simp add: collidingEntries_def supported_cases ext_a_txt ext_a_rtf ext_setup_exe)
     (simp add: js_def)

lemma colliding_run:
  "fst (zipLoop exampleEnv [] collidingEntries emptyWorld) =
     Inr [(js ''a.pdf'', map of_nat (styledDocument [114]))]"
  using supported_run zipLoop_filter[of exampleEnv "[]" collidingEntries]
  by (simp add: colliding_supported)

lemma mapSet_new: "k \<notin> set (map fst m) \<Longrightarrow> mapSet k v m = m @ [(k, v)]"
  by (induction k v m rule: mapSet.induct) auto

lemma mapSet_rebuild:
  "distinct (map fst (pre @ m)) \<Longrightarrow> foldl (\<lambda>acc (k, v). mapSet k v acc) pre m = pre @ m"
proof (induction m arbitrary: pre)
  case Nil
  then show ?case by simp
next
  case (Cons x m)
  obtain k v where x: "x = (k, v)" by (cases x)
  have new: "k \<notin> set (map fst pre)" using Cons.prems by (auto simp: x)
  have "distinct (map fst ((pre @ [(k, v)]) @ m))" using Cons.prems by (simp add: x)
  then have "foldl (\<lambda>acc (k, v). mapSet k v acc) (pre @ [(k, v)]) m = (pre @ [(k, v)]) @ m"
    by (rule Cons.IH)
  then show ?case by (simp add: x mapSet_new[OF new])
qed

lemma convertZip_archive:
  assumes "reqFormData req = Inr form" and "formGet form (js ''file'') = Some (FFile f)"
    and "length (upContent f) \<le> MAX_FILE_BYTES"
    and "endsWithCI (nameOr (upName f) (js ''archive.zip'')) (js ''.zip'')"
    and "unzipToMap e (upContent f) w = (Inr entries, w)"
    and "zipLoop e [] entries w = (Inr out, w1)"
    and "distinct (map fst out)"
  shows "\<exists>name. fst (respond (convertZip e req) w) = Stream (Some (zipSync e out)) name (js ''application/zip'')"
proof -
  have rf: "readFormFile req (js ''file'') = ret f"
    using assms(1,2) by (simp add: readFormFile_def formDataOf_def andThen_def ret_def fun_eq_iff)
  have lim: "enforceFileLimit f = ret ()"
    using assms(3) by (simp add: enforceFileLimit_def)
  have same: "foldl (\<lambda>acc (k, v). mapSet k v acc) [] out = out"
    using mapSet_rebuild[of "[]" out] assms(7) by simp
  show ?thesis
    by (simp add: convertZip_def rf lim assms(4,5,6) same zipFromMap_toPath_def respond_def
        andThen_def ret_def freshStamp_def writeFile_def streamFile_def Let_def)
qed

lemma entry_a_txt: "entrySupported (js ''a.txt'')" and entry_a_rtf: "entrySupported (js ''a.rtf'')"
  by (simp_all add: supported_cases ext_a_txt ext_a_rtf)

lemma entryTarget_a_txt: "entryTarget (js ''a.txt'') = js ''a.pdf''"
  by (simp add: entryTarget_def ext_a_txt target_a_txt)

lemma entryTarget_a_rtf: "entryTarget (js ''a.rtf'') = js ''a.pdf''"
  by (simp add: entryTarget_def ext_a_rtf target_a_rtf ext_distinct[symmetric])

lemma example_unzip: "unzipToMap exampleEnv [80, 75] w = (Inr collidingEntries, w)"
  by (simp add: unzipToMap_def exampleEnv_def ret_def collidingEntries_def js_def)

text \<open>
  C2, as the claim states it, fails: the archive with the two supported entries \<open>a.txt\<close>
  and \<open>a.rtf\<close> is converted to a map with the single entry \<open>a.pdf\<close>, not to one entry
  for each of them.
\<close>

theorem batch_one_entry_each_counterexample:
  "entrySupported (js ''a.txt'') \<and> entrySupported (js ''a.rtf'') \<and>
   fst (zipLoop exampleEnv [] [(js ''a.txt'', [104, 105]), (js ''a.rtf'', [114])] emptyWorld) =
     Inr [(js ''a.pdf'', map of_nat (styledDocument [114]))]"
  using supported_run entry_a_txt entry_a_rtf by simp

text \<open>
  C2, amended.  An entry whose lower-cased extension is none of \<open>.txt\<close>, \<open>.docx\<close>,
  \<open>.rtf\<close>, \<open>.html\<close>, \<open>.htm\<close> is passed over: the loop body returns the map it was
  given, in the world it was given, and does not throw.  So whenever the conversion of the
  supported entries of an archive alone succeeds, the conversion of the whole archive
  succeeds as well, with the same map and in the same world, and \<open>/convert/zip\<close> streams
  the archive built from that map.  The keys of the map are distinct and are exactly the
  output paths of the supported entries: one entry for each output path, not for each
  input entry.  For a supported entry whose path does not end in a slash, the output path
  is the path with its extension replaced by \<open>.pdf\<close>.
\<close>

theorem batch_converts_supported_entries:
  assumes "reqFormData req = Inr form" and "formGet form (js ''file'') = Some (FFile f)"
    and "length (upContent f) \<le> MAX_FILE_BYTES"
    and "endsWithCI (nameOr (upName f) (js ''archive.zip'')) (js ''.zip'')"
    and "unzipToMap e (upContent f) w = (Inr entries, w)"
    and "zipLoop e [] (filter (\<lambda>(p, d). entrySupported p) entries) w = (Inr out, w1)"
  shows "(\<forall>p c m w0. \<not> entrySupported p \<longrightarrow> zipEntry e m p c w0 = (Inr m, w0)) \<and>
         zipLoop e [] entries w = (Inr out, w1) \<and>
         (\<exists>name. fst (respond (convertZip e req) w) =
            Stream (Some (zipSync e out)) name (js ''application/zip'')) \<and>
         distinct (map fst out) \<and>
         set (map fst out) = entryTarget ` {p \<in> fst ` set entries. entrySupported p} \<and>
         (\<forall>p. entrySupported p \<and> \<not> endsWith p [47] \<longrightarrow>
            p = take (length p - length (extname p)) p @ extname p \<and>
            entryTarget p = take (length p - length (extname p)) p @ js ''.pdf'')"
proof -
  have skip: "\<forall>p c m w0. \<not> entrySupported p \<longrightarrow> zipEntry e m p c w0 = (Inr m, w0)"
    by (simp add: zipEntry_unsupported ret_def)
  have whole: "zipLoop e [] entries w = (Inr out, w1)"
    using assms(6) zipLoop_filter[of e "[]" entries] by simp
  have keys: "set (map fst out) = entryTarget ` {p \<in> fst ` set entries. entrySupported p}"
    and dist: "distinct (map fst out)"
    using zipLoop_keys[OF whole] by simp_all
  have stream: "\<exists>name. fst (respond (convertZip e req) w) =
      Stream (Some (zipSync e out)) name (js ''application/zip'')"
    by (rule convertZip_archive[OF assms(1-5) whole dist])
  have rename: "\<forall>p. entrySupported p \<and> \<not> endsWith p [47] \<longrightarrow>
      p = take (length p - length (extname p)) p @ extname p \<and>
      entryTarget p = take (length p - length (extname p)) p @ js ''.pdf''"
    using entryTarget_replaces_extension by blast
  show ?thesis
    using skip whole stream dist keys rename by blast
qed

theorem batch_converts_supported_entries_witness:
  "(js ''setup.exe'', [77, 90]) \<in> set collidingEntries \<and>
   \<not> entrySupported (js ''setup.exe'') \<and>
   zipEntry exampleEnv [] (js ''setup.exe'') [77, 90] emptyWorld = (Inr [], emptyWorld) \<and>
   fst (zipLoop exampleEnv [] collidingEntries emptyWorld) =
     Inr [(js ''a.pdf'', map of_nat (styledDocument [114]))] \<and>
   (\<exists>name. fst (respond (convertZip exampleEnv
        (formRequest [(js ''file'', FFile \<lparr>upName = js ''batch.zip'', upContent = [80, 75]\<rparr>)]))
        emptyWorld) =
      Stream (Some (zipSync exampleEnv [(js ''a.pdf'', map of_nat (styledDocument [114]))])) name
        (js ''application/zip'')) \<and>
   set (map fst [(js ''a.pdf'', map of_nat (styledDocument [114]) :: bytes)]) =
     entryTarget ` {p \<in> fst ` set collidingEntries. entrySupported p} \<and>
   entrySupported (js ''a.txt'') \<and>
   entryTarget (js ''a.txt'') =
     take (length (js ''a.txt'') - length (extname (js ''a.txt''))) (js ''a.txt'') @ js ''.pdf''"
proof -
  let ?out = "[(js ''a.pdf'', map of_nat (styledDocument [114]) :: bytes)]"
  let ?f = "\<lparr>upName = js ''batch.zip'', upContent = [80, 75]\<rparr>"
  let ?req = "formRequest [(js ''file'', FFile ?f)]"
  let ?supported = "filter (\<lambda>(p, d). entrySupported p) collidingEntries"
  have a: "reqFormData ?req = Inr [(js ''file'', FFile ?f)]"
    by (simp add: formRequest_def)
  have b: "formGet [(js ''file'', FFile ?f)] (js ''file'') = Some (FFile ?f)"
    by (simp add: formGet_def)
  have c: "length (upContent ?f) \<le> MAX_FILE_BYTES"
    by (simp add: MAX_FILE_BYTES_def)
  have d: "endsWithCI (nameOr (upName ?f) (js ''archive.zip'')) (js ''.zip'')"
    by (simp add: nameOr_def endsWithCI_def path_defs js_def)
  have u: "unzipToMap exampleEnv (upContent ?f) emptyWorld = (Inr collidingEntries, emptyWorld)"
    using example_unzip by simp
  have "fst (zipLoop exampleEnv [] ?supported emptyWorld) = Inr ?out"
    using supported_run by (simp only: colliding_supported)
  then have run: "zipLoop exampleEnv [] ?supported emptyWorld =
      (Inr ?out, snd (zipLoop exampleEnv [] ?supported emptyWorld))"
    by (cases "zipLoop exampleEnv [] ?supported emptyWorld") simp
  note claim = batch_converts_supported_entries[OF a b c d u run]
  have member: "(js ''setup.exe'', [77, 90]) \<in> set collidingEntries"
    by (simp add: collidingEntries_def)
  have noslash: "\<not> endsWith (js ''a.txt'') [47]"
    by (simp add: endsWith_def js_def)
  have skipped: "zipEntry exampleEnv [] (js ''setup.exe'') [77, 90] emptyWorld = (Inr [], emptyWorld)"
    using claim entry_setup_exe by blast
  have whole: "fst (zipLoop exampleEnv [] collidingEntries emptyWorld) = Inr ?out"
    using claim by simp
  have stream: "\<exists>name. fst (respond (convertZip exampleEnv ?req) emptyWorld) =
      Stream (Some (zipSync exampleEnv ?out)) name (js ''application/zip'')"
    using claim by blast
  have keys: "set (map fst ?out) = entryTarget ` {p \<in> fst ` set collidingEntries. entrySupported p}"
    using claim by blast
  have target: "entryTarget (js ''a.txt'') =
      take (length (js ''a.txt'') - length (extname (js ''a.txt''))) (js ''a.txt'') @ js ''.pdf''"
    using claim entry_a_txt noslash by blast
  show ?thesis
    using member entry_setup_exe skipped whole stream keys entry_a_txt target by blast
qed

text \<open>
  C9.  The entries of the output are kept in a map keyed by output path, so its keys are
  distinct.  A supported entry stores the PDF converted from it under its output path in
  whatever map it is given, in place of what an earlier entry stored there, and that PDF
  is what the output holds under this path whenever no later supported entry has the same
  output path.  The output has at most as many entries as there are supported input
  entries, fewer when two of them collide (as \<open>a.txt\<close> and \<open>a.rtf\<close> do).
\<close>

theorem batch_collision_last_wins:
  assumes "zipLoop e [] (before @ (p, d) # rest) w = (Inr out, w')"
    and "entrySupported p"
    and "\<forall>(q, c) \<in> set rest. entrySupported q \<longrightarrow> entryTarget q \<noteq> entryTarget p"
  shows "distinct (map fst out) \<and>
         (\<exists>out1 w1 b w2. zipLoop e [] before w = (Inr out1, w1) \<and>
            (\<forall>m. zipEntry e m p d w1 = (Inr (mapSet (entryTarget p) b m), w2)) \<and>
            map_of out (entryTarget p) = Some b) \<and>
         length out \<le> length (filter (\<lambda>(q, c). entrySupported q) (before @ (p, d) # rest))"
proof -
  obtain out1 w1 where first: "zipLoop e [] before w = (Inr out1, w1)"
    and later: "zipLoop e out1 ((p, d) # rest) w1 = (Inr out, w')"
    using assms(1) unfolding zipLoop_append by (blast dest: andThen_InrE)
  obtain out2 w2 where step: "zipEntry e out1 p d w1 = (Inr out2, w2)"
    and tail: "zipLoop e out2 rest w2 = (Inr out, w')"
    using later andThen_InrE[of "zipEntry e out1 p d" "\<lambda>o1. zipLoop e o1 rest" w1 out w']
    by auto
  obtain b where b: "\<forall>m. zipEntry e m p d w1 = (Inr (mapSet (entryTarget p) b m), w2)"
    using zipEntry_stores[OF assms(2) step] by blast
  then have out2: "out2 = mapSet (entryTarget p) b out1"
    using step by simp
  have "map_of out (entryTarget p) = map_of out2 (entryTarget p)"
    using tail assms(3) by (rule zipLoop_keeps)
  then have stored: "map_of out (entryTarget p) = Some b"
    by (simp add: out2 map_of_mapSet)
  have "distinct (map fst out)"
    and "length out \<le> length (filter (\<lambda>(q, c). entrySupported q) (before @ (p, d) # rest))"
    using zipLoop_keys[OF assms(1)] by simp_all
  then show ?thesis
    using first b stored by blast
qed

theorem batch_collision_last_wins_witness:
  "fst (zipLoop exampleEnv [] collidingEntries emptyWorld) =
     Inr [(js ''a.pdf'', map of_nat (styledDocument [114]))] \<and>
   entryTarget (js ''a.txt'') = js ''a.pdf'' \<and> entryTarget (js ''a.rtf'') = js ''a.pdf'' \<and>
   (\<exists>w1 w2. zipEntry exampleEnv [] (js ''a.rtf'') [114] w1 =
      (Inr [(js ''a.pdf'', map of_nat (styledDocument [114]))], w2)) \<and>
   length [(js ''a.pdf'', map of_nat (styledDocument [114]) :: bytes)] <
     length (filter (\<lambda>(q, c). entrySupported q) collidingEntries)"
proof -
  let ?out = "[(js ''a.pdf'', map of_nat (styledDocument [114]) :: bytes)]"
  have run: "zipLoop exampleEnv []
        ([(js ''a.txt'', [104, 105]), (js ''setup.exe'', [77, 90])] @ (js ''a.rtf'', [114]) # [])
        emptyWorld =
      (Inr ?out, snd (zipLoop exampleEnv [] collidingEntries emptyWorld))"
    using colliding_run
    by (cases "zipLoop exampleEnv [] collidingEntries emptyWorld") (simp add: collidingEntries_def)
  have none: "\<forall>(q, c) \<in> set ([] :: (jsstring \<times> bytes) list).
      entrySupported q \<longrightarrow> entryTarget q \<noteq> entryTarget (js ''a.rtf'')"
    by simp
  obtain w1 b w2 where
    stores: "\<forall>m. zipEntry exampleEnv m (js ''a.rtf'') [114] w1 =
      (Inr (mapSet (entryTarget (js ''a.rtf'')) b m), w2)"
    and final: "map_of ?out (entryTarget (js ''a.rtf'')) = Some b"
    using batch_collision_last_wins[OF run entry_a_rtf none] by blast
  have b: "b = map of_nat (styledDocument [114])"
    using final by (simp add: entryTarget_a_rtf)
  have "zipEntry exampleEnv [] (js ''a.rtf'') [114] w1 = (Inr ?out, w2)"
    using stores by (simp add: entryTarget_a_rtf b)
  then have alone: "\<exists>w1 w2. zipEntry exampleEnv [] (js ''a.rtf'') [114] w1 = (Inr ?out, w2)"
    by blast
  have fewer: "length ?out < length (filter (\<lambda>(q, c). entrySupported q) collidingEntries)"
    by (simp add: colliding_supported)
  show ?thesis
    using colliding_run entryTarget_a_txt entryTarget_a_rtf alone fewer by blast
qed

end
